theory Spec2Isabelle
  imports Complex_Main "HOL-Library.AList" "HOL-Library.Sublist"
begin

section \<open>HalluShield: a shallow embedding of the verification pipeline\<close>

text \<open>
  The Python sources under \<^verbatim>\<open>src/hallushield\<close> are embedded function by function.
  Conventions of the embedding:
  \<^item> a Python \<^verbatim>\<open>float\<close> is a \<^typ>\<open>real\<close>, the number the float stands for: comparisons
    against the literal thresholds are kept as written, and the values NaN and infinity
    are not represented (every score is finite). The quotient and the sum that
    \<^verbatim>\<open>_check_escalation\<close> compares with thresholds are the interpreter's rounded
    operations, which the embedding takes as parameters;
  \<^item> a Python \<^verbatim>\<open>str\<close> is a \<^typ>\<open>string\<close> over the ASCII alphabet;
  \<^item> a \<^verbatim>\<open>dict\<close> keyed by claim id is an association list with distinct keys, in
    insertion order, written with \<^const>\<open>AList.update\<close> and read with \<^const>\<open>map_of\<close>;
  \<^item> an exception that leaves a function is the \<open>Inl\<close> branch of its result.
\<close>

subsection \<open>types.py\<close>

record Claim =
  id_c :: string
  text_c :: string
  claim_type :: string
  source_sentence :: string
  position :: nat

record Evidence =
  source_url :: string
  snippet :: string
  relevance_score :: real
  publish_date :: "string option"
  credibility_score :: real

record VerificationResult =
  claim_id_v :: string
  support_score :: real
  contradiction_score :: real
  neutral_score :: real
  evidence_agreement :: real
  source_count :: int
  evidence_ids :: "string list"

record Decision =
  claim_id :: string
  action :: string
  original_claim :: string
  corrected_claim :: "string option"
  evidence_urls :: "string list"
  confidence :: real
  reasoning :: string

subsection \<open>policy.py: AdaptiveDecisionPolicy\<close>

definition rule_based_action :: "VerificationResult \<Rightarrow> string" where
  "rule_based_action verification =
     (if support_score verification > 0.85 \<and> contradiction_score verification < 0.1
        then ''ACCEPT''
      else if contradiction_score verification > 0.7
        then ''CORRECT''
      else if source_count verification < 2 \<or> evidence_agreement verification < 0.5
        then ''ABSTAIN''
      else ''FLAG_FOR_HUMAN'')"

definition reasoning_of :: "string \<Rightarrow> string" where
  "reasoning_of a =
     (if a = ''ACCEPT'' then ''Evidence supports the claim.''
      else if a = ''CORRECT'' then ''Evidence contradicts the claim.''
      else if a = ''ABSTAIN'' then ''Insufficient evidence confidence.''
      else ''Mixed evidence signals; requires review.'')"

definition decide :: "Claim \<Rightarrow> VerificationResult \<Rightarrow> Evidence list \<Rightarrow> Decision" where
  "decide claim verification evidence =
     (let a = rule_based_action verification in
      \<lparr> claim_id = id_c claim,
        action = a,
        original_claim = text_c claim,
        corrected_claim = None,
        evidence_urls = map source_url evidence,
        confidence = evidence_agreement verification,
        reasoning = reasoning_of a \<rparr>)"

text \<open>The four actions of the policy.\<close>

definition policy_actions :: "string list" where
  "policy_actions = [''ACCEPT'', ''CORRECT'', ''ABSTAIN'', ''FLAG_FOR_HUMAN'']"

subsection \<open>Python strings\<close>

text \<open>\<^verbatim>\<open>str.lower\<close> on ASCII text: the letters A to Z are mapped, nothing else is.\<close>

definition lower_chr :: "char \<Rightarrow> char" where
  "lower_chr c =
     (case map_of (zip ''ABCDEFGHIJKLMNOPQRSTUVWXYZ'' ''abcdefghijklmnopqrstuvwxyz'') c of
        Some d \<Rightarrow> d
      | None \<Rightarrow> c)"

definition lower :: "string \<Rightarrow> string" where
  "lower s = map lower_chr s"

text \<open>\<^verbatim>\<open>needle in hay\<close>: \<open>needle\<close> occurs in \<open>hay\<close> as a contiguous substring.\<close>

fun contains :: "string \<Rightarrow> string \<Rightarrow> bool" where
  "contains [] needle = (needle = [])"
| "contains (c # cs) needle = (prefix needle (c # cs) \<or> contains cs needle)"

text \<open>
  The whitespace of \<^verbatim>\<open>str.split()\<close> within ASCII: tab, line feed, vertical tab, form
  feed, carriage return, the separators 0x1C to 0x1F, and the space.
\<close>

definition is_space :: "char \<Rightarrow> bool" where
  "is_space c = (let n = (of_char c :: nat) in (9 \<le> n \<and> n \<le> 13) \<or> (28 \<le> n \<and> n \<le> 32))"

text \<open>
  The maximal runs of characters that satisfy \<open>p\<close>, from the left; \<open>w\<close> is the run
  being read.
\<close>

fun runs :: "(char \<Rightarrow> bool) \<Rightarrow> string \<Rightarrow> string \<Rightarrow> string list" where
  "runs p w [] = (if w = [] then [] else [w])"
| "runs p w (c # cs) =
     (if p c then runs p (w @ [c]) cs
      else if w = [] then runs p [] cs
      else w # runs p [] cs)"

text \<open>\<^verbatim>\<open>s.split()\<close>: the maximal runs of characters that are not whitespace.\<close>

definition split :: "string \<Rightarrow> string list" where
  "split s = runs (\<lambda>c. \<not> is_space c) [] s"

text \<open>\<^verbatim>\<open>s.strip()\<close>: leading and trailing whitespace removed.\<close>

definition strip :: "string \<Rightarrow> string" where
  "strip s = rev (dropWhile is_space (rev (dropWhile is_space s)))"

text \<open>\<^verbatim>\<open>re.findall(r"[A-Za-z0-9]+", s)\<close>: the maximal runs of ASCII letters and digits.\<close>

definition is_alnum :: "char \<Rightarrow> bool" where
  "is_alnum c =
     (let n = (of_char c :: nat)
      in (48 \<le> n \<and> n \<le> 57) \<or> (65 \<le> n \<and> n \<le> 90) \<or> (97 \<le> n \<and> n \<le> 122))"

definition findall_alnum :: "string \<Rightarrow> string list" where
  "findall_alnum s = runs is_alnum [] s"

text \<open>The decimal numeral of a natural number, as an f-string prints it.\<close>

function show_nat :: "nat \<Rightarrow> string" where
  "show_nat n =
     (if n < 10 then [''0123456789'' ! n]
      else show_nat (n div 10) @ [''0123456789'' ! (n mod 10)])"
  by pat_completeness auto
termination
  by (relation "measure (\<lambda>n. n)") auto

text \<open>\<^verbatim>\<open>xs[:k]\<close>: a negative \<open>k\<close> counts from the end.\<close>

definition slice_to :: "'a list \<Rightarrow> int \<Rightarrow> 'a list" where
  "slice_to xs k = (if 0 \<le> k then take (nat k) xs else take (length xs - nat (- k)) xs)"

text \<open>
  \<^verbatim>\<open>s.replace(old, new)\<close>: every occurrence of \<open>old\<close>, found from the left and
  not overlapping, is replaced; an empty \<open>old\<close> matches before every character and at
  the end.
\<close>

function replace :: "string \<Rightarrow> string \<Rightarrow> string \<Rightarrow> string" where
  "replace [] old new = (if old = [] then new else [])"
| "replace (c # cs) old new =
     (if old = [] then new @ c # replace cs old new
      else if prefix old (c # cs) then new @ replace (drop (length old) (c # cs)) old new
      else c # replace cs old new)"
  by pat_completeness auto
termination
  by (relation "measure (\<lambda>(s, old, new). length s)") auto

text \<open>Truthiness of an optional string: \<^verbatim>\<open>None\<close> and \<^verbatim>\<open>""\<close> are false.\<close>

definition truthy :: "string option \<Rightarrow> bool" where
  "truthy v = (case v of None \<Rightarrow> False | Some s \<Rightarrow> s \<noteq> [])"

text \<open>\<^verbatim>\<open>v or default\<close> for an optional string.\<close>

definition or_str :: "string option \<Rightarrow> string \<Rightarrow> string" where
  "or_str v d = (case v of None \<Rightarrow> d | Some s \<Rightarrow> if s = [] then d else s)"

subsection \<open>Python dictionaries\<close>

text \<open>
  A dictionary display \<^verbatim>\<open>{k1: v1, ..., **more}\<close>: later entries overwrite earlier ones
  with the same key, at the earlier position.
\<close>

definition dict_of :: "('k \<times> 'v) list \<Rightarrow> ('k \<times> 'v) list" where
  "dict_of kvs = foldl (\<lambda>d kv. AList.update (fst kv) (snd kv) d) [] kvs"

text \<open>\<^verbatim>\<open>d.get(k, dflt)\<close>.\<close>

definition get :: "('k \<times> 'v) list \<Rightarrow> 'k \<Rightarrow> 'v \<Rightarrow> 'v" where
  "get d k dflt = (case map_of d k of None \<Rightarrow> dflt | Some v \<Rightarrow> v)"

text \<open>\<^verbatim>\<open>state.get(key, dflt)\<close> and \<^verbatim>\<open>state.get(key) or dflt\<close> on an optional key.\<close>

definition state_get :: "'a option \<Rightarrow> 'a \<Rightarrow> 'a" where
  "state_get v dflt = (case v of None \<Rightarrow> dflt | Some x \<Rightarrow> x)"

text \<open>The values a metadata dictionary holds.\<close>

datatype pyval = VNone | VStr string | VInt int | VFloat real

text \<open>The exceptions that leave a function of the pipeline.\<close>

datatype error =
    AllProvidersFailed
  | ValidationError
  | JSONDecodeError
  | ScorerError
  | AttributeError
  | ValueError
  | TypeError

subsection \<open>Python floats\<close>

text \<open>
  The arithmetic of the interpreter on floats: \<open>py_div a b\<close> is the true division
  \<^verbatim>\<open>a / b\<close> of two integers or floats, \<open>py_sum xs\<close> is the built-in \<^verbatim>\<open>sum\<close> over
  floats. Both round their result to a float.
\<close>

record float_arith =
  py_div :: "real \<Rightarrow> real \<Rightarrow> real"
  py_sum :: "real list \<Rightarrow> real"

text \<open>
  The arithmetic of IEEE 754 binary64 with the default rounding, for numbers within the
  range of the normal floats (overflow and subnormal numbers are not represented): a
  result is rounded to the nearest number with a significand of 53 bits, a tie going to
  the even significand. The built-in \<^verbatim>\<open>sum\<close> starts from the integer 0 and adds the
  items from the left, each addition rounded.
\<close>

definition round_half_even :: "real \<Rightarrow> int" where
  "round_half_even x =
     (let n = \<lfloor>x\<rfloor>; r = x - of_int n
      in if r < 1 / 2 then n else if 1 / 2 < r then n + 1 else if even n then n else n + 1)"

definition round_double :: "real \<Rightarrow> real" where
  "round_double x =
     (if x = 0 then 0
      else let e = \<lfloor>log 2 \<bar>x\<bar>\<rfloor> - 52
           in of_int (round_half_even (x / 2 powr of_int e)) * 2 powr of_int e)"

definition double_arith :: float_arith where
  "double_arith =
     \<lparr> py_div = (\<lambda>a b. round_double (a / b)),
       py_sum = (\<lambda>xs. foldl (\<lambda>acc x. round_double (acc + x)) 0 xs) \<rparr>"

subsection \<open>model_router.py: ModelResponse and ModelRouter\<close>

record ModelResponse =
  text_m :: string
  model :: string
  provider :: string
  tier :: string
  tokens :: int
  cost :: real
  metadata :: "(string \<times> pyval) list"

record router_stats =
  slm_calls :: int
  llm_calls :: int
  escalations :: int
  total_cost :: real
  cost_saved :: real

text \<open>\<^verbatim>\<open>ModelRouter.__init__\<close>: the usage counters start at zero.\<close>

definition new_router :: router_stats where
  "new_router = \<lparr> slm_calls = 0, llm_calls = 0, escalations = 0, total_cost = 0, cost_saved = 0 \<rparr>"

definition cost_table :: "(string \<times> real) list" where
  "cost_table = [(''slm'', 0.10), (''llm_flash'', 0.50), (''llm_pro'', 2.00)]"

definition calculate_cost :: "int \<Rightarrow> string \<Rightarrow> real" where
  "calculate_cost n t = (real_of_int n / 1000000) * get cost_table t 1.0"

text \<open>
  The provider clients are outside the repository. What the router reads from a completion
  is a record; a client that raises (a missing package, a transport error, a reply the
  response model rejects) answers \<open>None\<close>. Every answer may depend on the calls made
  before it, the \<open>world\<close>.
\<close>

datatype call =
    Generation string
  | Retrieval string string
  | Scoring string string

type_synonym world = "call list"

record token_usage =
  total_tokens :: int
  prompt_tokens :: int
  completion_tokens :: int

record groq_completion =
  content_g :: string
  finish_reason_g :: pyval
  usage_g :: "token_usage option"

record hf_completion =
  content_h :: string
  finish_reason_h :: "pyval option"

record claude_message =
  text_a :: string
  stop_reason_a :: pyval
  input_tokens_a :: int
  output_tokens_a :: int

record providers =
  GROQ_API_KEY :: "string option"
  HF_TOKEN :: "string option"
  GEMINI_API_KEY :: "string option"
  ANTHROPIC_API_KEY :: "string option"
  groq_create :: "world \<Rightarrow> string \<Rightarrow> string \<Rightarrow> groq_completion option"
  hf_create :: "world \<Rightarrow> string \<Rightarrow> hf_completion option"
  gemini_generate :: "world \<Rightarrow> string \<Rightarrow> string \<Rightarrow> string option"
  claude_create :: "world \<Rightarrow> string \<Rightarrow> claude_message option"

text \<open>\<^verbatim>\<open>int(n * 1.3)\<close> for a word count \<open>n\<close>.\<close>

definition estimate_tokens :: "nat \<Rightarrow> int" where
  "estimate_tokens n = \<lfloor>real n * 1.3\<rfloor>"

definition call_groq ::
  "providers \<Rightarrow> world \<Rightarrow> router_stats \<Rightarrow> string \<Rightarrow> string \<Rightarrow> (router_stats \<times> ModelResponse) option" where
  "call_groq env w stats q m =
     (if \<not> truthy (GROQ_API_KEY env) then None
      else case groq_create env w q m of
        None \<Rightarrow> None
      | Some completion \<Rightarrow>
          let total = (case usage_g completion of None \<Rightarrow> 0 | Some u \<Rightarrow> total_tokens u);
              c = calculate_cost total ''slm''
          in Some (stats\<lparr>total_cost := total_cost stats + c\<rparr>,
                   \<lparr> text_m = content_g completion, model = m, provider = ''groq'',
                     tier = ''slm'', tokens = total, cost = c,
                     metadata =
                       [(''finish_reason'', finish_reason_g completion),
                        (''prompt_tokens'',
                           VInt (case usage_g completion of None \<Rightarrow> 0 | Some u \<Rightarrow> prompt_tokens u)),
                        (''completion_tokens'',
                           VInt (case usage_g completion of None \<Rightarrow> 0 | Some u \<Rightarrow> completion_tokens u))] \<rparr>))"

definition call_huggingface ::
  "providers \<Rightarrow> world \<Rightarrow> router_stats \<Rightarrow> string \<Rightarrow> (router_stats \<times> ModelResponse) option" where
  "call_huggingface env w stats q =
     (if \<not> truthy (HF_TOKEN env) then None
      else case hf_create env w q of
        None \<Rightarrow> None
      | Some response \<Rightarrow>
          let estimated = estimate_tokens (length (split (content_h response)));
              c = calculate_cost estimated ''slm''
          in Some (stats\<lparr>total_cost := total_cost stats + c\<rparr>,
                   \<lparr> text_m = content_h response, model = ''Mistral-7B-Instruct-v0.3'',
                     provider = ''huggingface'', tier = ''slm'', tokens = estimated, cost = c,
                     metadata =
                       [(''finish_reason'',
                           (case finish_reason_h response of None \<Rightarrow> VStr ''stop'' | Some r \<Rightarrow> r))] \<rparr>))"

definition call_gemini ::
  "providers \<Rightarrow> world \<Rightarrow> router_stats \<Rightarrow> string \<Rightarrow> string \<Rightarrow> (router_stats \<times> ModelResponse) option" where
  "call_gemini env w stats q m =
     (if \<not> truthy (GEMINI_API_KEY env) then None
      else case gemini_generate env w q m of
        None \<Rightarrow> None
      | Some response_text \<Rightarrow>
          let estimated = \<lfloor>real (length (split q)) * 1.3 + real (length (split response_text)) * 1.3\<rfloor>;
              cost_tier = (if contains (lower m) ''flash'' then ''llm_flash'' else ''llm_pro'');
              c = calculate_cost estimated cost_tier
          in Some (stats\<lparr>total_cost := total_cost stats + c\<rparr>,
                   \<lparr> text_m = response_text, model = m, provider = ''gemini'',
                     tier = ''llm'', tokens = estimated, cost = c,
                     metadata = [(''model_version'', VStr m)] \<rparr>))"

definition call_claude ::
  "providers \<Rightarrow> world \<Rightarrow> router_stats \<Rightarrow> string \<Rightarrow> (router_stats \<times> ModelResponse) option" where
  "call_claude env w stats q =
     (if \<not> truthy (ANTHROPIC_API_KEY env) then None
      else case claude_create env w q of
        None \<Rightarrow> None
      | Some message \<Rightarrow>
          let total = input_tokens_a message + output_tokens_a message;
              c = calculate_cost total ''llm_pro''
          in Some (stats\<lparr>total_cost := total_cost stats + c\<rparr>,
                   \<lparr> text_m = text_a message, model = ''claude-sonnet-4-20250514'',
                     provider = ''anthropic'', tier = ''llm'', tokens = total, cost = c,
                     metadata =
                       [(''stop_reason'', stop_reason_a message),
                        (''input_tokens'', VInt (input_tokens_a message)),
                        (''output_tokens'', VInt (output_tokens_a message))] \<rparr>))"

text \<open>
  \<^verbatim>\<open>_call_slm\<close> and \<^verbatim>\<open>_call_llm\<close>: the first provider, then the fallback; when both
  raise, the exception leaves the router. The call counter is raised before either try.
\<close>

definition call_slm ::
  "providers \<Rightarrow> world \<Rightarrow> router_stats \<Rightarrow> string \<Rightarrow> string \<Rightarrow> router_stats \<times> (error + ModelResponse)" where
  "call_slm env w stats q m =
     (let stats1 = stats\<lparr>slm_calls := slm_calls stats + 1\<rparr> in
      case call_groq env w stats1 q m of
        Some (stats2, r) \<Rightarrow> (stats2, Inr r)
      | None \<Rightarrow>
          (case call_huggingface env w stats1 q of
             Some (stats2, r) \<Rightarrow> (stats2, Inr r)
           | None \<Rightarrow> (stats1, Inl AllProvidersFailed)))"

definition call_llm_router ::
  "providers \<Rightarrow> world \<Rightarrow> router_stats \<Rightarrow> string \<Rightarrow> string \<Rightarrow> router_stats \<times> (error + ModelResponse)" where
  "call_llm_router env w stats q m =
     (let stats1 = stats\<lparr>llm_calls := llm_calls stats + 1\<rparr> in
      case call_gemini env w stats1 q m of
        Some (stats2, r) \<Rightarrow> (stats2, Inr r)
      | None \<Rightarrow>
          (case call_claude env w stats1 q of
             Some (stats2, r) \<Rightarrow> (stats2, Inr r)
           | None \<Rightarrow> (stats1, Inl AllProvidersFailed)))"

definition get_response ::
  "providers \<Rightarrow> world \<Rightarrow> router_stats \<Rightarrow> string \<Rightarrow> string \<Rightarrow> string \<Rightarrow> string
     \<Rightarrow> router_stats \<times> (error + ModelResponse)" where
  "get_response env w stats q model_tier slm_model llm_model =
     (if model_tier = ''llm'' then call_llm_router env w stats q llm_model
      else if model_tier = ''slm'' then call_slm env w stats q slm_model
      else call_slm env w stats q slm_model)"

text \<open>
  The reason \<^verbatim>\<open>should_escalate\<close> returns with its verdict. The two parametrised
  reasons stand for the formatted texts \<^verbatim>\<open>High hallucination rate: {score:.1%}\<close> and
  \<^verbatim>\<open>Low verification confidence: {confidence:.2f}\<close>; the others for the fixed texts
  "Already using LLM tier", "SLM expressed uncertainty", "Response too brief, may lack
  detail" and "No escalation needed".
\<close>

datatype reason =
    Already_using_LLM_tier
  | SLM_expressed_uncertainty
  | High_hallucination_rate real
  | Low_verification_confidence real
  | Response_too_brief
  | No_escalation_needed

definition uncertainty_phrases :: "string list" where
  "uncertainty_phrases =
     [''i don't know'', ''i'm not sure'', ''i cannot'', ''i don't have'',
      ''unclear'', ''uncertain'', ''i cannot confirm'']"

definition should_escalate :: "ModelResponse \<Rightarrow> real \<Rightarrow> real \<Rightarrow> bool \<times> reason" where
  "should_escalate slm_response hallucination_score confidence_score =
     (let t = lower (text_m slm_response) in
      if list_ex (\<lambda>phrase. contains t phrase) uncertainty_phrases
        then (True, SLM_expressed_uncertainty)
      else if hallucination_score > 0.3
        then (True, High_hallucination_rate hallucination_score)
      else if confidence_score < 0.5
        then (True, Low_verification_confidence confidence_score)
      else if length (split t) < 10
        then (True, Response_too_brief)
      else (False, No_escalation_needed))"


subsection \<open>verifier.py: NLIVerifier\<close>

text \<open>
  The values \<^verbatim>\<open>json.loads\<close> returns. The parser itself belongs to Python's library:
  the verifier takes it as \<open>json_loads\<close>, which answers \<open>None\<close> where
  \<^verbatim>\<open>json.loads\<close> raises \<^verbatim>\<open>JSONDecodeError\<close>.
\<close>

datatype json =
    JNull
  | JBool bool
  | JNum real
  | JStr string
  | JArr "json list"
  | JObj "(string \<times> json) list"

text \<open>
  \<^verbatim>\<open>re.search(r"\{.*\}", text, re.DOTALL)\<close>: the dot matches every character and the
  star is greedy, so the match runs from the first opening brace to the last closing brace
  after it; there is no match when no closing brace follows the first opening one.
\<close>

definition brace_span :: "string \<Rightarrow> string option" where
  "brace_span s =
     (case dropWhile (\<lambda>c. c \<noteq> CHR ''{'') s of
        [] \<Rightarrow> None
      | b # rest \<Rightarrow>
          (case dropWhile (\<lambda>c. c \<noteq> CHR ''}'') (rev rest) of
             [] \<Rightarrow> None
           | r \<Rightarrow> Some (b # rev r)))"

text \<open>
  What a Python caller sees of a parsed value: \<^verbatim>\<open>json.loads("null")\<close> is \<^verbatim>\<open>None\<close>,
  the value \<^verbatim>\<open>_parse_json\<close> also returns on failure.
\<close>

definition py_value :: "json \<Rightarrow> json option" where
  "py_value v = (if v = JNull then None else Some v)"

definition parse_json :: "(string \<Rightarrow> json option) \<Rightarrow> string \<Rightarrow> json option" where
  "parse_json json_loads s =
     (case json_loads s of
        Some v \<Rightarrow> py_value v
      | None \<Rightarrow>
          (case brace_span s of
             None \<Rightarrow> None
           | Some m \<Rightarrow>
               (case json_loads m of
                  Some v \<Rightarrow> py_value v
                | None \<Rightarrow> None)))"

definition claim_tokens :: "string \<Rightarrow> string list" where
  "claim_tokens claim = map lower (filter (\<lambda>t. length t \<ge> 4) (findall_alnum claim))"

definition hit_ratio :: "string list \<Rightarrow> Evidence \<Rightarrow> real" where
  "hit_ratio toks e =
     (let hay = lower (snippet e);
          hit = length (filter (\<lambda>t. contains hay t) toks)
      in real hit / real (max 1 (length toks)))"

definition heuristic_support :: "string \<Rightarrow> Evidence list \<Rightarrow> real" where
  "heuristic_support claim evidence_list =
     (let toks = claim_tokens claim in
      if toks = [] then 0.3
      else
        let scores = map (hit_ratio toks) evidence_list;
            base = (case scores of [] \<Rightarrow> 0.0 | x # xs \<Rightarrow> fold max xs x)
        in max 0.0 (min 1.0 (0.2 + 0.8 * base)))"

text \<open>
  The delegated scorer. The chat model is outside the repository: \<open>llm_invoke\<close> answers
  the reply's text, or \<open>None\<close> when the client raises, which \<^verbatim>\<open>_verify_with_llm\<close>
  does not catch. \<open>float_of_str\<close> is Python's \<^verbatim>\<open>float\<close> on a string.
\<close>

record scorer =
  HALLUSHIELD_PROVIDER :: "string option"
  HALLUSHIELD_VERIFIER_MODEL :: "string option"
  GEMINI_KEY :: "string option"
  anthropic_api_key :: "string option"
  openai_api_key :: "string option"
  llm_invoke :: "world \<Rightarrow> string \<Rightarrow> string \<Rightarrow> string \<Rightarrow> string option"
  json_loads :: "string \<Rightarrow> json option"
  float_of_str :: "string \<Rightarrow> real option"

definition build_prompt :: "string \<Rightarrow> Evidence list \<Rightarrow> string" where
  "build_prompt claim evidence_list =
     (let nl = [CHR 0x0A]; dq = [CHR 0x22];
          source = (\<lambda>(i, e). ''Source '' @ show_nat (i + 1) @ '' ('' @ source_url e @ ''):'' @ nl @ snippet e);
          sources = map source (enumerate 0 evidence_list);
          evidence_text = (case sources of [] \<Rightarrow> [] | x # xs \<Rightarrow> foldl (\<lambda>acc y. acc @ nl @ nl @ y) x xs);
          field = (\<lambda>k v. ''  '' @ dq @ k @ dq @ '': '' @ v @ '','' @ nl)
      in ''You are a fact-verification expert. Analyze if the evidence supports, contradicts, or is neutral to the claim.''
           @ nl @ nl
         @ ''CLAIM: '' @ claim @ nl @ nl
         @ ''EVIDENCE:'' @ nl @ evidence_text @ nl @ nl
         @ ''Return ONLY a JSON object with this exact structure (no markdown, no code blocks):'' @ nl
         @ ''{'' @ nl
         @ field ''verdict'' (dq @ ''SUPPORTED'' @ dq @ '' | '' @ dq @ ''CONTRADICTED'' @ dq @ '' | '' @ dq @ ''NEUTRAL'' @ dq)
         @ field ''support_score'' ''0.0-1.0''
         @ field ''contradiction_score'' ''0.0-1.0''
         @ field ''neutral_score'' ''0.0-1.0''
         @ field ''confidence'' ''0.0-1.0''
         @ field ''reasoning'' (dq @ ''brief explanation'' @ dq)
         @ ''  '' @ dq @ ''supporting_evidence_indices'' @ dq @ '': []'' @ nl
         @ ''}'' @ nl @ nl
         @ ''Scores must sum to 1.0.'')"

definition verify_with_llm ::
  "scorer \<Rightarrow> world \<Rightarrow> string \<Rightarrow> Evidence list \<Rightarrow> error + json option" where
  "verify_with_llm env w claim evidence_list =
     (let p0 = HALLUSHIELD_PROVIDER env;
          m = HALLUSHIELD_VERIFIER_MODEL env;
          p = (if p0 = Some ''groq'' then Some ''google'' else p0);
          ask = (\<lambda>name dflt.
                   case llm_invoke env w name (or_str m dflt) (build_prompt claim evidence_list) of
                     None \<Rightarrow> Inl ScorerError
                   | Some reply \<Rightarrow> Inr (parse_json (json_loads env) reply))
      in if p = Some ''google'' \<and> truthy (GEMINI_KEY env) then ask ''google'' ''gemini-2.5-flash''
         else if p = Some ''anthropic'' \<and> truthy (anthropic_api_key env) then ask ''anthropic'' ''claude-3-haiku-20240307''
         else if p = Some ''openai'' \<and> truthy (openai_api_key env) then ask ''openai'' ''gpt-4o-mini''
         else Inr None)"

text \<open>
  \<^verbatim>\<open>float(result.get(key, dflt))\<close> on the scorer's verdict: a verdict that is not a
  dictionary has no \<^verbatim>\<open>get\<close>, and a value that is no number raises.
\<close>

definition to_float :: "scorer \<Rightarrow> json \<Rightarrow> error + real" where
  "to_float env v =
     (case v of
        JNum r \<Rightarrow> Inr r
      | JBool b \<Rightarrow> Inr (if b then 1 else 0)
      | JStr s \<Rightarrow> (case float_of_str env s of None \<Rightarrow> Inl ValueError | Some r \<Rightarrow> Inr r)
      | _ \<Rightarrow> Inl TypeError)"

definition verdict_field :: "scorer \<Rightarrow> json \<Rightarrow> string \<Rightarrow> real \<Rightarrow> error + real" where
  "verdict_field env verdict k dflt =
     (case verdict of
        JObj d \<Rightarrow> (case map_of d k of None \<Rightarrow> Inr dflt | Some v \<Rightarrow> to_float env v)
      | _ \<Rightarrow> Inl AttributeError)"

definition verify ::
  "scorer \<Rightarrow> world \<Rightarrow> string \<Rightarrow> string \<Rightarrow> Evidence list \<Rightarrow> error + VerificationResult" where
  "verify env w cid claim evidence_list =
     (if evidence_list = [] then
        Inr \<lparr> claim_id_v = cid, support_score = 0.0, contradiction_score = 0.0,
              neutral_score = 1.0, evidence_agreement = 0.0, source_count = 0,
              evidence_ids = [] \<rparr>
      else
        case verify_with_llm env w claim evidence_list of
          Inl e \<Rightarrow> Inl e
        | Inr (Some llm_result) \<Rightarrow>
            (case verdict_field env llm_result ''support_score'' 0.0 of Inl e \<Rightarrow> Inl e | Inr s \<Rightarrow>
             case verdict_field env llm_result ''contradiction_score'' 0.0 of Inl e \<Rightarrow> Inl e | Inr c \<Rightarrow>
             case verdict_field env llm_result ''neutral_score'' 1.0 of Inl e \<Rightarrow> Inl e | Inr n \<Rightarrow>
             case verdict_field env llm_result ''confidence'' 0.0 of Inl e \<Rightarrow> Inl e | Inr a \<Rightarrow>
               Inr \<lparr> claim_id_v = cid, support_score = s, contradiction_score = c,
                     neutral_score = n, evidence_agreement = a,
                     source_count = int (length evidence_list),
                     evidence_ids = map source_url evidence_list \<rparr>)
        | Inr None \<Rightarrow>
            let support = heuristic_support claim evidence_list;
                contradiction = 0.0;
                neutral = max 0.0 (1.0 - support - contradiction)
            in Inr \<lparr> claim_id_v = cid, support_score = support,
                     contradiction_score = contradiction, neutral_score = neutral,
                     evidence_agreement = support,
                     source_count = int (length evidence_list),
                     evidence_ids = map source_url evidence_list \<rparr>)"


subsection \<open>evidence_retriever.py: EvidenceRetriever\<close>

text \<open>
  The outcome of one HTTP request with \<^verbatim>\<open>raise_for_status\<close> and \<^verbatim>\<open>r.json()\<close>:
  an \<^verbatim>\<open>httpx.HTTPError\<close> (transport failure or error status), a body that is not
  JSON (a \<^verbatim>\<open>ValueError\<close>, which the retriever does not catch), or the list of result
  items of the decoded body.
\<close>

datatype 'a http_outcome = HTTPError | NotJSON | Body "'a list"

record brave_item =
  url_b :: "string option"
  description_b :: "string option"
  age_b :: "string option"

record wiki_item =
  title_w :: "string option"
  snippet_w :: "string option"

record sources =
  brave_api_key :: "string option"
  httpx :: bool
  brave_get :: "world \<Rightarrow> string \<Rightarrow> int \<Rightarrow> brave_item http_outcome"
  wikipedia_get :: "world \<Rightarrow> string \<Rightarrow> int \<Rightarrow> wiki_item http_outcome"

text \<open>The placeholder list of \<^verbatim>\<open>_search_web\<close>, relevance starting at \<open>start\<close>.\<close>

definition placeholder :: "string \<Rightarrow> real \<Rightarrow> real \<Rightarrow> nat \<Rightarrow> Evidence" where
  "placeholder claim start cred i =
     \<lparr> source_url = ''https://example.com/evidence/'' @ show_nat i,
       snippet = ''Placeholder evidence for: '' @ claim,
       relevance_score = start - (real i * 0.1),
       publish_date = None,
       credibility_score = cred \<rparr>"

definition placeholders :: "string \<Rightarrow> real \<Rightarrow> real \<Rightarrow> int \<Rightarrow> Evidence list" where
  "placeholders claim start cred top_k = map (placeholder claim start cred) [0..<nat top_k]"

definition web_result :: "brave_item \<Rightarrow> Evidence option" where
  "web_result item =
     (let url = or_str (url_b item) '''';
          snip = strip (or_str (description_b item) '''')
      in if url = [] \<or> snip = [] then None
         else Some \<lparr> source_url = url, snippet = snip, relevance_score = 0.75,
                     publish_date = age_b item, credibility_score = 0.7 \<rparr>)"

definition search_web :: "sources \<Rightarrow> world \<Rightarrow> string \<Rightarrow> int \<Rightarrow> error + Evidence list" where
  "search_web env w claim top_k =
     (if \<not> truthy (brave_api_key env) then Inr (placeholders claim 0.8 0.6 top_k)
      else if \<not> httpx env then Inr (placeholders claim 0.7 0.5 top_k)
      else case brave_get env w claim (max 1 top_k) of
        HTTPError \<Rightarrow> Inr (placeholders claim 0.7 0.5 top_k)
      | NotJSON \<Rightarrow> Inl ValueError
      | Body items \<Rightarrow> Inr (List.map_filter web_result (slice_to items top_k)))"

definition span_open :: string where
  "span_open = ''<span class='' @ [CHR 0x22] @ ''searchmatch'' @ [CHR 0x22] @ ''>''"

definition wiki_result :: "wiki_item \<Rightarrow> Evidence option" where
  "wiki_result item =
     (let snip = replace (replace (or_str (snippet_w item) '''') span_open '''') ''</span>'' ''''
      in if \<not> truthy (title_w item) \<or> snip = [] then None
         else Some \<lparr> source_url =
                       ''https://en.wikipedia.org/wiki/'' @ replace (the (title_w item)) '' '' ''_'',
                     snippet = snip, relevance_score = 0.65,
                     publish_date = None, credibility_score = 0.8 \<rparr>)"

definition search_wikipedia :: "sources \<Rightarrow> world \<Rightarrow> string \<Rightarrow> int \<Rightarrow> error + Evidence list" where
  "search_wikipedia env w claim top_k =
     (if top_k \<le> 0 then Inr []
      else if \<not> httpx env then Inr []
      else case wikipedia_get env w claim top_k of
        HTTPError \<Rightarrow> Inr []
      | NotJSON \<Rightarrow> Inl ValueError
      | Body items \<Rightarrow> Inr (List.map_filter wiki_result (slice_to items top_k)))"

text \<open>
  \<^verbatim>\<open>_rank_evidence\<close>: each relevance is multiplied by the credibility, then the list
  is sorted by it, largest first; \<^verbatim>\<open>sorted\<close> is stable, also with \<^verbatim>\<open>reverse=True\<close>.
\<close>

definition rank_evidence :: "Evidence list \<Rightarrow> Evidence list" where
  "rank_evidence evidence =
     sort_key (\<lambda>e. - relevance_score e)
       (map (\<lambda>e. e\<lparr>relevance_score := relevance_score e * credibility_score e\<rparr>) evidence)"

definition retrieve :: "sources \<Rightarrow> world \<Rightarrow> string \<Rightarrow> int \<Rightarrow> error + Evidence list" where
  "retrieve env w claim top_k =
     (case search_web env w claim (min 3 top_k) of
        Inl e \<Rightarrow> Inl e
      | Inr web_results \<Rightarrow>
          (case search_wikipedia env w claim (min 2 (max 0 (top_k - int (length web_results)))) of
             Inl e \<Rightarrow> Inl e
           | Inr wiki_results \<Rightarrow>
               Inr (slice_to (rank_evidence (web_results @ wiki_results)) top_k)))"

subsection \<open>memory_store.py: MemoryStore\<close>

text \<open>
  The store without a durable backend (\<^verbatim>\<open>DATABASE_URL\<close> unset, so \<^verbatim>\<open>_enabled\<close> is
  false): the dictionary \<^verbatim>\<open>_in_memory\<close>, keyed by claim text.
\<close>

record cache_entry =
  action_e :: string
  corrected_claim_e :: "string option"
  evidence_urls_e :: "string list"
  confidence_e :: real

type_synonym memory = "string \<rightharpoonup> cache_entry"

definition check_claim :: "memory \<Rightarrow> string \<Rightarrow> cache_entry option" where
  "check_claim m claim_text = m claim_text"

definition store_verification ::
  "memory \<Rightarrow> string \<Rightarrow> string \<Rightarrow> string option \<Rightarrow> string list \<Rightarrow> real \<Rightarrow> memory" where
  "store_verification m claim_text a corrected urls conf =
     m(claim_text \<mapsto>
        \<lparr> action_e = a, corrected_claim_e = corrected, evidence_urls_e = urls,
          confidence_e = conf \<rparr>)"


subsection \<open>claim_extractor.py: ClaimExtractor\<close>

text \<open>
  The helpers of the extractor that are regular expressions or a hash (the sentence
  splitter, the factual test, the claim type, the whitespace normalisation, the first 16
  hexadecimal digits of the MD5 digest) are taken as functions; the loop of
  \<^verbatim>\<open>extract\<close> over the sentences is embedded as written.
\<close>

record extractor_helpers =
  split_sentences :: "string \<Rightarrow> string list"
  looks_factual :: "string \<Rightarrow> bool"
  infer_claim_type :: "string \<Rightarrow> string"
  normalize_claim :: "string \<Rightarrow> string"
  generate_claim_id :: "string \<Rightarrow> string"

definition extract_sentence :: "extractor_helpers \<Rightarrow> nat \<times> string \<Rightarrow> Claim option" where
  "extract_sentence h p =
     (let s = strip (snd p) in
      if s = [] then None
      else if last s = CHR ''?'' then None
      else if \<not> looks_factual h s then None
      else
        let claim_text = normalize_claim h s in
        Some \<lparr> id_c = generate_claim_id h claim_text,
               text_c = claim_text,
               claim_type = infer_claim_type h s,
               source_sentence = s,
               position = fst p \<rparr>)"

definition extract_text :: "extractor_helpers \<Rightarrow> string \<Rightarrow> Claim list" where
  "extract_text h t = List.map_filter (extract_sentence h) (enumerate 0 (split_sentences h t))"

subsection \<open>state.py and pipeline.py: HalluShieldPipeline\<close>

datatype modification =
    Correction string string "string list"
  | Uncertainty string string
  | Flagged string string

record claim_breakdown =
  total_claims :: nat
  verified :: nat
  corrected :: nat
  abstained :: nat
  flagged :: nat

record final_answer_dict =
  verified_answer :: string
  original_answer :: string
  modifications :: "modification list"
  hallucination_score :: real
  confidence_f :: real
  breakdown :: claim_breakdown

text \<open>
  \<^verbatim>\<open>HalluShieldState\<close> is a \<^verbatim>\<open>TypedDict\<close> with \<^verbatim>\<open>total=False\<close>: every key but
  the query may be absent. The keys \<^verbatim>\<open>processing_time\<close> (wall-clock time) and
  \<^verbatim>\<open>errors\<close> (never written by a node) are left out.
\<close>

record state =
  query :: string
  user_id :: "string option"
  raw_llm_response :: "string option"
  llm_metadata :: "(string \<times> pyval) list option"
  claims :: "Claim list option"
  cached_claims :: "(string \<times> cache_entry) list option"
  evidence_map :: "(string \<times> Evidence list) list option"
  verification_results :: "(string \<times> VerificationResult) list option"
  should_escalate_s :: "bool option"
  escalation_reason :: "reason option"
  hallucination_score_detected :: "real option"
  confidence_detected :: "real option"
  force_llm_tier :: "bool option"
  decisions :: "Decision list option"
  final_answer :: "final_answer_dict option"

text \<open>
  The pipeline object: the configured premium model, the router (created by the first node
  that needs it), the memory store, and the external calls made so far.
\<close>

record pipeline =
  llm_model :: "string option"
  model_router :: "router_stats option"
  memory_store :: memory
  calls :: world

text \<open>
  What the pipeline is run against: the provider clients, the evidence sources, the scorer,
  the \<^verbatim>\<open>HALLUSHIELD_SLM_MODEL\<close> variable, whether \<^verbatim>\<open>langgraph\<close> is installed,
  the helpers of the claim extractor, and the float arithmetic of the interpreter.
\<close>

record environment =
  router_env :: providers
  retriever_env :: sources
  verifier_env :: scorer
  HALLUSHIELD_SLM_MODEL :: "string option"
  langgraph :: bool
  extractor :: extractor_helpers
  floats :: float_arith

definition route_by_cache :: "state \<Rightarrow> string" where
  "route_by_cache st =
     (if length (state_get (cached_claims st) []) = length (state_get (claims st) [])
      then ''all_cached'' else ''has_new_claims'')"

definition metadata_of :: "ModelResponse \<Rightarrow> (string \<times> pyval) list" where
  "metadata_of response =
     dict_of ([(''provider'', VStr (provider response)),
               (''model'', VStr (model response)),
               (''tier'', VStr (tier response)),
               (''tokens'', VInt (tokens response)),
               (''cost'', VFloat (cost response))] @ metadata response)"

definition call_llm :: "environment \<Rightarrow> pipeline \<Rightarrow> state \<Rightarrow> pipeline \<times> (error + state)" where
  "call_llm env self st =
     (let router = (case model_router self of None \<Rightarrow> new_router | Some r \<Rightarrow> r);
          force_llm = state_get (force_llm_tier st) False;
          res =
            (if force_llm then
               get_response (router_env env) (calls self) router (query st) ''llm''
                 ''llama-3.3-70b-versatile'' (or_str (llm_model self) ''gemini-2.5-flash'')
             else
               get_response (router_env env) (calls self) router (query st) ''slm''
                 (state_get (HALLUSHIELD_SLM_MODEL env) ''llama-3.3-70b-versatile'')
                 ''gemini-2.5-flash'');
          self' = self\<lparr>model_router := Some (fst res),
                       calls := calls self @ [Generation (if force_llm then ''llm'' else ''slm'')]\<rparr>
      in case snd res of
           Inl e \<Rightarrow> (self', Inl e)
         | Inr response \<Rightarrow>
             (self', Inr (st\<lparr>raw_llm_response := Some (text_m response),
                              llm_metadata := Some (metadata_of response)\<rparr>)))"

definition extract_claims :: "environment \<Rightarrow> state \<Rightarrow> state" where
  "extract_claims env st = st\<lparr>claims := Some (extract_text (extractor env) (state_get (raw_llm_response st) ''''))\<rparr>"

definition check_memory :: "pipeline \<Rightarrow> state \<Rightarrow> state" where
  "check_memory self st =
     st\<lparr>cached_claims :=
          Some (foldl (\<lambda>cached claim.
                         case check_claim (memory_store self) (text_c claim) of
                           None \<Rightarrow> cached
                         | Some cached_result \<Rightarrow> AList.update (id_c claim) cached_result cached)
                  [] (state_get (claims st) []))\<rparr>"

text \<open>
  The loop of \<^verbatim>\<open>_retrieve_evidence\<close>: a claim whose id is cached is skipped; every
  other claim is sent to \<^verbatim>\<open>retrieve\<close> with the default \<^verbatim>\<open>top_k = 5\<close>, and the call
  is recorded.
\<close>

fun retrieve_loop ::
  "sources \<Rightarrow> (string \<times> cache_entry) list \<Rightarrow> Claim list \<Rightarrow> world \<Rightarrow> (string \<times> Evidence list) list
     \<Rightarrow> world \<times> (error + (string \<times> Evidence list) list)" where
  "retrieve_loop env cached [] w em = (w, Inr em)"
| "retrieve_loop env cached (claim # rest) w em =
     (if map_of cached (id_c claim) \<noteq> None then retrieve_loop env cached rest w em
      else case retrieve env w (text_c claim) 5 of
        Inl e \<Rightarrow> (w @ [Retrieval (id_c claim) (text_c claim)], Inl e)
      | Inr ev \<Rightarrow>
          retrieve_loop env cached rest (w @ [Retrieval (id_c claim) (text_c claim)])
            (AList.update (id_c claim) ev em))"

definition retrieve_evidence :: "environment \<Rightarrow> pipeline \<Rightarrow> state \<Rightarrow> pipeline \<times> (error + state)" where
  "retrieve_evidence env self st =
     (let res = retrieve_loop (retriever_env env) (state_get (cached_claims st) [])
                  (state_get (claims st) []) (calls self) []
      in (self\<lparr>calls := fst res\<rparr>,
          case snd res of Inl e \<Rightarrow> Inl e | Inr em \<Rightarrow> Inr (st\<lparr>evidence_map := Some em\<rparr>)))"

text \<open>
  The loop of \<^verbatim>\<open>_verify_claims\<close>: a claim with no evidence list, or an empty one, is
  skipped; every other claim is sent to the verifier, and the call is recorded.
\<close>

fun verify_loop ::
  "scorer \<Rightarrow> (string \<times> Evidence list) list \<Rightarrow> Claim list \<Rightarrow> world
     \<Rightarrow> (string \<times> VerificationResult) list
     \<Rightarrow> world \<times> (error + (string \<times> VerificationResult) list)" where
  "verify_loop env em [] w vr = (w, Inr vr)"
| "verify_loop env em (claim # rest) w vr =
     (case map_of em (id_c claim) of
        None \<Rightarrow> verify_loop env em rest w vr
      | Some evidence_list \<Rightarrow>
          if evidence_list = [] then verify_loop env em rest w vr
          else case verify env w (id_c claim) (text_c claim) evidence_list of
            Inl e \<Rightarrow> (w @ [Scoring (id_c claim) (text_c claim)], Inl e)
          | Inr v \<Rightarrow>
              verify_loop env em rest (w @ [Scoring (id_c claim) (text_c claim)])
                (AList.update (id_c claim) v vr))"

definition verify_claims :: "environment \<Rightarrow> pipeline \<Rightarrow> state \<Rightarrow> pipeline \<times> (error + state)" where
  "verify_claims env self st =
     (let res = verify_loop (verifier_env env) (state_get (evidence_map st) [])
                  (state_get (claims st) []) (calls self) []
      in (self\<lparr>calls := fst res\<rparr>,
          case snd res of Inl e \<Rightarrow> Inl e | Inr vr \<Rightarrow> Inr (st\<lparr>verification_results := Some vr\<rparr>)))"

definition route_by_escalation :: "state \<Rightarrow> string" where
  "route_by_escalation st =
     (if state_get (should_escalate_s st) False then ''escalate_to_llm'' else ''proceed'')"


text \<open>
  The \<^verbatim>\<open>ModelResponse\<close> that \<^verbatim>\<open>_check_escalation\<close> builds from the metadata.
  The response model validates its fields: a model or provider that is no string, a token
  count that is no integer, or a cost that is no number is rejected. (The coercions of
  the lax validation mode, such as a numeral given as a string, are not represented; the
  metadata \<^verbatim>\<open>_call_llm\<close> writes never needs them.)
\<close>

definition as_str :: "pyval \<Rightarrow> string option" where
  "as_str v = (case v of VStr s \<Rightarrow> Some s | _ \<Rightarrow> None)"

definition as_int :: "pyval \<Rightarrow> int option" where
  "as_int v = (case v of VInt n \<Rightarrow> Some n | _ \<Rightarrow> None)"

definition as_float :: "pyval \<Rightarrow> real option" where
  "as_float v = (case v of VFloat r \<Rightarrow> Some r | VInt n \<Rightarrow> Some (of_int n) | _ \<Rightarrow> None)"

definition mock_response :: "state \<Rightarrow> error + ModelResponse" where
  "mock_response st =
     (let md = state_get (llm_metadata st) [] in
      case as_str (get md ''model'' (VStr ''unknown'')) of None \<Rightarrow> Inl ValidationError | Some m \<Rightarrow>
      case as_str (get md ''provider'' (VStr ''unknown'')) of None \<Rightarrow> Inl ValidationError | Some p \<Rightarrow>
      case as_int (get md ''tokens'' (VInt 0)) of None \<Rightarrow> Inl ValidationError | Some n \<Rightarrow>
      case as_float (get md ''cost'' (VFloat 0.0)) of None \<Rightarrow> Inl ValidationError | Some c \<Rightarrow>
        Inr \<lparr> text_m = state_get (raw_llm_response st) '''', model = m, provider = p,
              tier = ''slm'', tokens = n, cost = c, metadata = [] \<rparr>)"

text \<open>
  \<^verbatim>\<open>_check_escalation\<close>. The hallucination score is the quotient of two integers and
  the confidence is the built-in sum of the support scores divided by their number, both
  computed by the interpreter in floats: \<open>arith\<close> is its arithmetic.
\<close>

definition problematic :: "VerificationResult \<Rightarrow> bool" where
  "problematic v = (contradiction_score v > 0.5 \<or> neutral_score v > 0.7)"

definition check_escalation ::
  "float_arith \<Rightarrow> pipeline \<Rightarrow> state \<Rightarrow> pipeline \<times> (error + state)" where
  "check_escalation arith self st =
     (let router = (case model_router self of None \<Rightarrow> new_router | Some r \<Rightarrow> r);
          self1 = self\<lparr>model_router := Some router\<rparr>;
          current_tier = get (state_get (llm_metadata st) []) ''tier'' (VStr ''slm'')
      in if current_tier = VStr ''llm'' then
           (self1, Inr (st\<lparr>should_escalate_s := Some False,
                            escalation_reason := Some Already_using_LLM_tier\<rparr>))
         else
           let verifications = map snd (state_get (verification_results st) []);
               total_verifications = length verifications;
               score =
                 (if total_verifications = 0 then 0.0
                  else py_div arith (real (length (filter problematic verifications)))
                         (real total_verifications));
               conf =
                 (if total_verifications = 0 then 1.0
                  else py_div arith (py_sum arith (map support_score verifications))
                         (real total_verifications))
           in case mock_response st of
                Inl e \<Rightarrow> (self1, Inl e)
              | Inr slm_response \<Rightarrow>
                  let verdict = should_escalate slm_response score conf;
                      router' =
                        (if fst verdict then
                           router\<lparr>escalations := escalations router + 1,
                                   cost_saved := cost_saved router
                                     + (calculate_cost (tokens slm_response) ''llm_pro''
                                        - cost slm_response)\<rparr>
                         else router)
                  in (self\<lparr>model_router := Some router'\<rparr>,
                      Inr (st\<lparr>should_escalate_s := Some (fst verdict),
                               escalation_reason := Some (snd verdict),
                               hallucination_score_detected := Some score,
                               confidence_detected := Some conf,
                               force_llm_tier := Some (fst verdict)\<rparr>)))"

text \<open>One iteration of the loop of \<^verbatim>\<open>_apply_policy\<close>: the decision appended for a claim.\<close>

definition decision_for :: "state \<Rightarrow> Claim \<Rightarrow> Decision" where
  "decision_for st claim =
     (case map_of (state_get (cached_claims st) []) (id_c claim) of
        Some cached \<Rightarrow>
          \<lparr> claim_id = id_c claim,
            action = action_e cached,
            original_claim = text_c claim,
            corrected_claim = corrected_claim_e cached,
            evidence_urls = evidence_urls_e cached,
            confidence = confidence_e cached,
            reasoning = ''From cache'' \<rparr>
      | None \<Rightarrow>
          let evidence = get (state_get (evidence_map st) []) (id_c claim) [];
              verification =
                (case map_of (state_get (verification_results st) []) (id_c claim) of
                   Some v \<Rightarrow> v
                 | None \<Rightarrow>
                     \<lparr> claim_id_v = id_c claim, support_score = 0.0,
                       contradiction_score = 0.0, neutral_score = 1.0,
                       evidence_agreement = 0.0,
                       source_count = int (length evidence),
                       evidence_ids = map source_url evidence \<rparr>)
          in decide claim verification evidence)"

definition apply_policy :: "state \<Rightarrow> state" where
  "apply_policy st = st\<lparr>decisions := Some (map (decision_for st) (state_get (claims st) []))\<rparr>"

text \<open>
  The loop of \<^verbatim>\<open>_assemble_answer\<close> over the decisions, with the answer and the
  modifications built so far.
\<close>

fun assemble_loop :: "Decision list \<Rightarrow> string \<Rightarrow> modification list \<Rightarrow> string \<times> modification list" where
  "assemble_loop [] answer mods = (answer, mods)"
| "assemble_loop (d # ds) answer mods =
     (if action d = ''CORRECT'' \<and> truthy (corrected_claim d) then
        assemble_loop ds
          (replace answer (original_claim d) (the (corrected_claim d) @ '' [CORRECTED]''))
          (mods @ [Correction (original_claim d) (the (corrected_claim d)) (take 3 (evidence_urls d))])
      else if action d = ''ABSTAIN'' then
        assemble_loop ds answer (mods @ [Uncertainty (original_claim d) ''Insufficient evidence''])
      else if action d = ''FLAG_FOR_HUMAN'' then
        assemble_loop ds answer (mods @ [Flagged (original_claim d) (reasoning d)])
      else assemble_loop ds answer mods)"

definition count_action :: "string \<Rightarrow> Decision list \<Rightarrow> nat" where
  "count_action a ds = length (filter (\<lambda>d. action d = a) ds)"

definition assemble_answer :: "state \<Rightarrow> state" where
  "assemble_answer st =
     (let raw = state_get (raw_llm_response st) '''';
          ds = state_get (decisions st) [];
          res = assemble_loop ds raw [];
          total = length ds;
          n_problematic = length (filter (\<lambda>d. action d \<in> set [''CORRECT'', ''FLAG_FOR_HUMAN'']) ds);
          score = (if total \<noteq> 0 then real n_problematic / real total else 0.0)
      in st\<lparr>final_answer := Some
            \<lparr> verified_answer = fst res,
              original_answer = raw,
              modifications = snd res,
              hallucination_score = score,
              confidence_f = 1.0 - score,
              breakdown =
                \<lparr> total_claims = total,
                  verified = count_action ''ACCEPT'' ds,
                  corrected = count_action ''CORRECT'' ds,
                  abstained = count_action ''ABSTAIN'' ds,
                  flagged = count_action ''FLAG_FOR_HUMAN'' ds \<rparr> \<rparr>\<rparr>)"

definition update_memory :: "pipeline \<Rightarrow> state \<Rightarrow> pipeline" where
  "update_memory self st =
     self\<lparr>memory_store :=
            foldl (\<lambda>m decision.
                     if map_of (state_get (cached_claims st) []) (claim_id decision) \<noteq> None then m
                     else store_verification m (original_claim decision) (action decision)
                            (corrected_claim decision) (evidence_urls decision) (confidence decision))
              (memory_store self) (state_get (decisions st) [])\<rparr>"


subsection \<open>The workflow graph\<close>

text \<open>
  \<^verbatim>\<open>_build_workflow\<close>: the nodes, the edges, and the two conditional edges. A run starts
  at \<^verbatim>\<open>call_llm\<close>; each node's result is merged into the state, and an exception in a
  node ends the run.
\<close>

datatype node =
    Call_llm
  | Extract_claims
  | Check_memory
  | Retrieve_evidence
  | Verify_claims
  | Check_escalation
  | Apply_policy
  | Assemble_answer
  | Update_memory
  | END

definition run_node :: "environment \<Rightarrow> node \<Rightarrow> pipeline \<Rightarrow> state \<Rightarrow> pipeline \<times> (error + state)" where
  "run_node env n self st =
     (case n of
        Call_llm \<Rightarrow> call_llm env self st
      | Extract_claims \<Rightarrow> (self, Inr (extract_claims env st))
      | Check_memory \<Rightarrow> (self, Inr (check_memory self st))
      | Retrieve_evidence \<Rightarrow> retrieve_evidence env self st
      | Verify_claims \<Rightarrow> verify_claims env self st
      | Check_escalation \<Rightarrow> check_escalation (floats env) self st
      | Apply_policy \<Rightarrow> (self, Inr (apply_policy st))
      | Assemble_answer \<Rightarrow> (self, Inr (assemble_answer st))
      | Update_memory \<Rightarrow> (update_memory self st, Inr st)
      | END \<Rightarrow> (self, Inr st))"

definition next_node :: "node \<Rightarrow> state \<Rightarrow> node" where
  "next_node n st =
     (case n of
        Call_llm \<Rightarrow> Extract_claims
      | Extract_claims \<Rightarrow> Check_memory
      | Check_memory \<Rightarrow>
          (if route_by_cache st = ''has_new_claims'' then Retrieve_evidence else Check_escalation)
      | Retrieve_evidence \<Rightarrow> Verify_claims
      | Verify_claims \<Rightarrow> Check_escalation
      | Check_escalation \<Rightarrow>
          (if route_by_escalation st = ''escalate_to_llm'' then Call_llm else Apply_policy)
      | Apply_policy \<Rightarrow> Assemble_answer
      | Assemble_answer \<Rightarrow> Update_memory
      | Update_memory \<Rightarrow> END
      | END \<Rightarrow> END)"

text \<open>
  The run of the graph from a node, with at most \<open>fuel\<close> steps: the nodes executed, the
  pipeline object afterwards, and the final state or the exception; \<open>None\<close> when the
  steps did not suffice to reach the end.
\<close>

fun run_graph ::
  "environment \<Rightarrow> nat \<Rightarrow> node \<Rightarrow> pipeline \<Rightarrow> state
     \<Rightarrow> node list \<times> pipeline \<times> (error + state) option" where
  "run_graph env 0 n self st = ([], self, None)"
| "run_graph env (Suc fuel) n self st =
     (if n = END then ([], self, Some (Inr st))
      else case run_node env n self st of
        (self', Inl e) \<Rightarrow> ([n], self', Some (Inl e))
      | (self', Inr st') \<Rightarrow>
          (case run_graph env fuel (next_node n st') self' st' of
             (visited, res) \<Rightarrow> (n # visited, res)))"

text \<open>The state \<^verbatim>\<open>verify\<close> starts from: the query and the user id, nothing else.\<close>

definition initial_state :: "string \<Rightarrow> string option \<Rightarrow> state" where
  "initial_state q uid =
     \<lparr> query = q, user_id = uid, raw_llm_response = None, llm_metadata = None,
       claims = None, cached_claims = None, evidence_map = None,
       verification_results = None, should_escalate_s = None, escalation_reason = None,
       hallucination_score_detected = None, confidence_detected = None,
       force_llm_tier = None, decisions = None, final_answer = None \<rparr>"

text \<open>
  The sequential fallback of \<^verbatim>\<open>verify\<close>, taken when \<^verbatim>\<open>langgraph\<close> is not installed:
  no escalation check, one generation.
\<close>

definition and_then ::
  "pipeline \<times> (error + state) \<Rightarrow> (pipeline \<Rightarrow> state \<Rightarrow> pipeline \<times> (error + state))
     \<Rightarrow> pipeline \<times> (error + state)" where
  "and_then r f = (case snd r of Inl e \<Rightarrow> (fst r, Inl e) | Inr st \<Rightarrow> f (fst r) st)"

definition sequential :: "environment \<Rightarrow> pipeline \<Rightarrow> state \<Rightarrow> pipeline \<times> (error + state)" where
  "sequential env self st =
     and_then (and_then (and_then (and_then (and_then (and_then
       (run_node env Call_llm self st)
       (run_node env Extract_claims))
       (run_node env Check_memory))
       (\<lambda>self1 st1.
          if route_by_cache st1 = ''has_new_claims'' then
            and_then (run_node env Retrieve_evidence self1 st1) (run_node env Verify_claims)
          else
            (self1, Inr (st1\<lparr>evidence_map := Some (state_get (evidence_map st1) []),
                              verification_results := Some (state_get (verification_results st1) [])\<rparr>))))
       (run_node env Apply_policy))
       (run_node env Assemble_answer))
       (run_node env Update_memory)"

text \<open>
  \<^verbatim>\<open>HalluShieldPipeline.verify\<close>. The graph is run with \<open>fuel\<close> steps; the nodes it
  executed are listed only for the graph.
\<close>

definition pipeline_verify ::
  "environment \<Rightarrow> nat \<Rightarrow> pipeline \<Rightarrow> string \<Rightarrow> string option
     \<Rightarrow> node list \<times> pipeline \<times> (error + state) option" where
  "pipeline_verify env fuel self q uid =
     (if langgraph env then run_graph env fuel Call_llm self (initial_state q uid)
      else case sequential env self (initial_state q uid) of
        (self', res) \<Rightarrow> ([], self', Some res))"


subsection \<open>Reference definitions of the specification\<close>

text \<open>
  The escalation rules as the specification words them, for the comparison with
  \<^const>\<open>check_escalation\<close>. A hedging phrase occurs in the raw text as a substring up
  to letter case: some part of the text has the length of the phrase and agrees with it
  character by character, where a capital letter (codes 65 to 90) agrees with its small
  letter (32 above). The words of a text are counted by their first characters: the
  positions that hold no whitespace and that either start the text or follow a whitespace
  character. The hallucination score is the share of verified claims with contradiction
  above 0.5 or neutral above 0.7, 0 when there is none; the confidence is the mean
  support, 1 when there is none; the quotient and the mean are computed with the
  arithmetic \<open>arith\<close>. The rules are tried in order.
\<close>

definition hedging_phrases :: "string list" where
  "hedging_phrases =
     [''i don't know'', ''i'm not sure'', ''i cannot'', ''i don't have'',
      ''unclear'', ''uncertain'', ''i cannot confirm'']"

definition same_letter :: "char \<Rightarrow> char \<Rightarrow> bool" where
  "same_letter c d =
     (c = d
      \<or> (65 \<le> (of_char c :: nat) \<and> (of_char c :: nat) \<le> 90 \<and> (of_char d :: nat) = of_char c + 32)
      \<or> (65 \<le> (of_char d :: nat) \<and> (of_char d :: nat) \<le> 90 \<and> (of_char c :: nat) = of_char d + 32))"

definition hedges :: "string \<Rightarrow> bool" where
  "hedges raw =
     (\<exists>phrase pre u post.
        phrase \<in> set hedging_phrases \<and> raw = pre @ u @ post \<and> list_all2 same_letter u phrase)"

definition whitespace :: "char list" where
  "whitespace =
     [CHR 0x09, CHR 0x0A, CHR 0x0B, CHR 0x0C, CHR 0x0D, CHR 0x1C, CHR 0x1D, CHR 0x1E, CHR 0x1F,
      CHR '' '']"

definition word_count :: "string \<Rightarrow> nat" where
  "word_count raw =
     length (filter (\<lambda>i. raw ! i \<notin> set whitespace \<and> (i = 0 \<or> raw ! (i - 1) \<in> set whitespace))
               [0..<length raw])"

definition reference_hallucination_score :: "float_arith \<Rightarrow> VerificationResult list \<Rightarrow> real" where
  "reference_hallucination_score arith vs =
     (if vs = [] then 0
      else py_div arith
             (real (length (filter (\<lambda>v. contradiction_score v > 0.5 \<or> neutral_score v > 0.7) vs)))
             (real (length vs)))"

definition reference_confidence :: "float_arith \<Rightarrow> VerificationResult list \<Rightarrow> real" where
  "reference_confidence arith vs =
     (if vs = [] then 1
      else py_div arith (py_sum arith (map support_score vs)) (real (length vs)))"

definition reference_escalation :: "float_arith \<Rightarrow> string \<Rightarrow> VerificationResult list \<Rightarrow> bool" where
  "reference_escalation arith raw vs =
     (if hedges raw then True
      else if reference_hallucination_score arith vs > 0.3 then True
      else if reference_confidence arith vs < 0.5 then True
      else if word_count raw < 10 then True
      else False)"

text \<open>The arithmetic of the real numbers, in which nothing is rounded.\<close>

definition exact_arith :: float_arith where
  "exact_arith = \<lparr> py_div = (\<lambda>a b. a / b), py_sum = sum_list \<rparr>"

text \<open>
  Answer assembly as the specification words it. The replacement of a literal substring:
  \<open>old\<close> is looked for from the left; a text in which it does not occur is left as it
  is; otherwise the text before its first occurrence is kept, \<open>new\<close> stands in its
  place, and the replacement goes on in the text behind the occurrence. (An empty
  \<open>old\<close> occurs before every character and at the end.) The decisions that carry a
  corrected claim are the CORRECT decisions whose correction text is present and not empty
  (the test of \<^verbatim>\<open>_assemble_answer\<close> is the truth value of the field); for each of
  them, in order, the original claim is replaced in the answer by the correction followed
  by the marker.
\<close>

function reference_replace :: "string \<Rightarrow> string \<Rightarrow> string \<Rightarrow> string" where
  "reference_replace s old new =
     (if old = [] then concat (map (\<lambda>c. new @ [c]) s) @ new
      else case find (\<lambda>i. take (length old) (drop i s) = old) [0..<length s] of
             None \<Rightarrow> s
           | Some i \<Rightarrow> take i s @ new @ reference_replace (drop (i + length old) s) old new)"
  by pat_completeness auto
termination
proof (relation "measure (\<lambda>(s, old, new). length s)")
  show "wf (measure (\<lambda>(s, old, new). length s))" by simp
next
  fix s old new :: string and i :: nat
  assume "old \<noteq> []" and "find (\<lambda>i. take (length old) (drop i s) = old) [0..<length s] = Some i"
  then have "s \<noteq> []" by (cases s) auto
  with \<open>old \<noteq> []\<close>
  show "((drop (i + length old) s, old, new), (s, old, new)) \<in> measure (\<lambda>(s, old, new). length s)"
    by simp
qed

declare reference_replace.simps [simp del]

definition carries_correction :: "Decision \<Rightarrow> bool" where
  "carries_correction d =
     (action d = ''CORRECT'' \<and> corrected_claim d \<noteq> None \<and> corrected_claim d \<noteq> Some '''')"

definition reference_rewrite :: "string \<Rightarrow> Decision list \<Rightarrow> string" where
  "reference_rewrite raw ds =
     foldl (\<lambda>answer d. reference_replace answer (original_claim d)
                         (the (corrected_claim d) @ '' [CORRECTED]''))
       raw (filter carries_correction ds)"



text \<open>
  Permissive parsing as the specification words it: a direct parse, else the parse of the
  first balanced-brace substring, the leftmost substring that opens with a brace and ends
  where that brace is closed.
\<close>

fun balanced_from :: "nat \<Rightarrow> string \<Rightarrow> string \<Rightarrow> string option" where
  "balanced_from depth seen [] = None"
| "balanced_from depth seen (c # cs) =
     (if c = CHR ''{'' then balanced_from (depth + 1) (seen @ [c]) cs
      else if c = CHR ''}'' then
        (if depth = 1 then Some (seen @ [c]) else balanced_from (depth - 1) (seen @ [c]) cs)
      else balanced_from depth (seen @ [c]) cs)"

fun first_balanced :: "string \<Rightarrow> string option" where
  "first_balanced [] = None"
| "first_balanced (c # cs) =
     (if c = CHR ''{'' then
        (case balanced_from 1 [c] cs of Some m \<Rightarrow> Some m | None \<Rightarrow> first_balanced cs)
      else first_balanced cs)"

definition reference_parse :: "(string \<Rightarrow> json option) \<Rightarrow> string \<Rightarrow> json option" where
  "reference_parse loads s =
     (case loads s of
        Some v \<Rightarrow> Some v
      | None \<Rightarrow> (case first_balanced s of None \<Rightarrow> None | Some m \<Rightarrow> loads m))"




text \<open>
  Notions used to state properties of a run: the external calls a stage added to the log;
  claim lists in which equal texts have equal ids (every list the extractor returns), and
  in which equal ids have equal texts (no two texts of the list share the 16 digits of
  their digest); the cache entry that is stored for a decision.
\<close>

definition new_calls :: "pipeline \<Rightarrow> pipeline \<Rightarrow> call list" where
  "new_calls before after = drop (length (calls before)) (calls after)"

definition ids_by_text :: "Claim list \<Rightarrow> bool" where
  "ids_by_text cs = (\<forall>c \<in> set cs. \<forall>c' \<in> set cs. text_c c = text_c c' \<longrightarrow> id_c c = id_c c')"

definition texts_by_id :: "Claim list \<Rightarrow> bool" where
  "texts_by_id cs = (\<forall>c \<in> set cs. \<forall>c' \<in> set cs. id_c c = id_c c' \<longrightarrow> text_c c = text_c c')"

definition entry_of :: "Decision \<Rightarrow> cache_entry" where
  "entry_of d = \<lparr> action_e = action d, corrected_claim_e = corrected_claim d,
                  evidence_urls_e = evidence_urls d, confidence_e = confidence d \<rparr>"

text \<open>
  The state records the \<open>llm\<close> tier when the metadata holds it under the key
  \<^verbatim>\<open>tier\<close>, which is what \<^verbatim>\<open>_check_escalation\<close> tests. A run from a node is done
  within \<open>n\<close> steps with at most \<open>m\<close> generations when every run with at least
  \<open>n\<close> steps of fuel ends, in a final state or an exception, having executed
  \<^verbatim>\<open>call_llm\<close> at most \<open>m\<close> times.
\<close>

definition at_llm_tier :: "state \<Rightarrow> bool" where
  "at_llm_tier st = (get (state_get (llm_metadata st) []) ''tier'' (VStr ''slm'') = VStr ''llm'')"

definition done_within :: "environment \<Rightarrow> nat \<Rightarrow> node \<Rightarrow> pipeline \<Rightarrow> state \<Rightarrow> nat \<Rightarrow> bool" where
  "done_within env n nd self st m =
     (\<forall>fuel \<ge> n. \<exists>visited self' res.
        run_graph env fuel nd self st = (visited, self', Some res)
        \<and> count_list visited Call_llm \<le> m)"

subsection \<open>Example inputs\<close>

definition fresh_pipeline :: pipeline where
  "fresh_pipeline = \<lparr> llm_model = None, model_router = None, memory_store = Map.empty, calls = [] \<rparr>"

text \<open>
  States after a generation at the cheap tier, with the metadata \<^verbatim>\<open>_call_llm\<close> writes:
  a short answer; an answer of eleven words without verification results; the same answer
  with one verified claim that is contradicted; with one verified claim of low support;
  and with two verified claims whose support scores are the floats written \<^verbatim>\<open>0.99\<close>
  and \<^verbatim>\<open>0.01\<close>, that is 4458563631096791 / 2^52 and 5764607523034235 / 2^59.
\<close>

definition cheap_state :: "string \<Rightarrow> (string \<times> VerificationResult) list \<Rightarrow> state" where
  "cheap_state raw results =
     (initial_state ''When did the tower open?'' None)
       \<lparr> raw_llm_response := Some raw,
         llm_metadata := Some [(''provider'', VStr ''groq''), (''model'', VStr ''llama''),
                               (''tier'', VStr ''slm''), (''tokens'', VInt 12),
                               (''cost'', VFloat 0)],
         verification_results := Some results \<rparr>"

definition tower_answer :: string where
  "tower_answer = ''The Eiffel Tower is in Paris and it opened in 1889.''"

definition scored :: "real \<Rightarrow> real \<Rightarrow> real \<Rightarrow> VerificationResult" where
  "scored s c n =
     \<lparr> claim_id_v = ''c1'', support_score = s, contradiction_score = c, neutral_score = n,
       evidence_agreement = 1, source_count = 2, evidence_ids = [] \<rparr>"

definition near_half_results :: "(string \<times> VerificationResult) list" where
  "near_half_results =
     [(''c1'', scored (4458563631096791 / 4503599627370496) 0 0),
      (''c2'', scored (5764607523034235 / 576460752303423488) 0 0)]"

text \<open>
  A state before answer assembly: an answer of two sentences, a cached decision that
  corrects the first one, and an accepted decision on the second.
\<close>

definition spain_state :: state where
  "spain_state =
     (initial_state ''Where is Paris?'' None)
       \<lparr> raw_llm_response := Some ''Paris is in Spain. It is a large city.'',
         decisions := Some
           [\<lparr> claim_id = ''c1'', action = ''CORRECT'', original_claim = ''Paris is in Spain.'',
              corrected_claim = Some ''Paris is in France.'', evidence_urls = [],
              confidence = 0.9, reasoning = ''From cache'' \<rparr>,
            \<lparr> claim_id = ''c2'', action = ''ACCEPT'', original_claim = ''It is a large city.'',
              corrected_claim = None, evidence_urls = [],
              confidence = 0.9, reasoning = ''Strong support from multiple sources'' \<rparr>] \<rparr>"

text \<open>A state with one claim that is not cached and for which retrieval found nothing.\<close>

definition paris_claim :: Claim where
  "paris_claim =
     \<lparr> id_c = ''0f3a9c1d2b4e5f60'', text_c = ''Paris is the capital of France.'',
       claim_type = ''event'', source_sentence = ''Paris is the capital of France.'',
       position = 0 \<rparr>"

definition unsupported_state :: state where
  "unsupported_state =
     (initial_state ''What is the capital of France?'' None)
       \<lparr> raw_llm_response := Some ''Paris is the capital of France.'',
         claims := Some [paris_claim],
         cached_claims := Some [],
         evidence_map := Some [(''0f3a9c1d2b4e5f60'', [])] \<rparr>"

text \<open>A verifier with no delegated scorer configured, and two evidence lists.\<close>

definition no_scorer :: scorer where
  "no_scorer =
     \<lparr> HALLUSHIELD_PROVIDER = None, HALLUSHIELD_VERIFIER_MODEL = None, GEMINI_KEY = None,
       anthropic_api_key = None, openai_api_key = None,
       llm_invoke = (\<lambda>w name m prompt. None),
       json_loads = (\<lambda>s. None),
       float_of_str = (\<lambda>s. None) \<rparr>"



text \<open>
  Two scorer replies: one verdict object, \<^verbatim>\<open>{"support_score": 0.9}\<close>, and two verdict
  objects joined by a word. \<open>sample_loads\<close> answers as \<^verbatim>\<open>json.loads\<close> does on the
  texts used below: it parses the single object and rejects a text with anything around it.
\<close>

definition verdict_text :: string where
  "verdict_text = ''{'' @ [CHR 0x22] @ ''support_score'' @ [CHR 0x22] @ '': 0.9}''"

definition two_verdicts :: string where
  "two_verdicts = verdict_text @ '' or {'' @ [CHR 0x22] @ ''support_score'' @ [CHR 0x22] @ '': 0.1}''"

definition sample_loads :: "string \<Rightarrow> json option" where
  "sample_loads s = (if s = verdict_text then Some (JObj [(''support_score'', JNum 0.9)]) else None)"

text \<open>Evidence sources with a key and a client, whose every request fails in transport.\<close>

definition failing_sources :: sources where
  "failing_sources =
     \<lparr> brave_api_key = Some ''key'', httpx = True,
       brave_get = (\<lambda>w q n. HTTPError), wikipedia_get = (\<lambda>w q n. HTTPError) \<rparr>"


text \<open>
  An environment in which no generation provider answers, every evidence request fails in
  transport, and no scorer is configured; its extractor helpers take the whole text as one
  factual sentence and use the text as its own id.
\<close>

definition no_providers :: providers where
  "no_providers =
     \<lparr> GROQ_API_KEY = None, HF_TOKEN = None, GEMINI_API_KEY = None, ANTHROPIC_API_KEY = None,
       groq_create = (\<lambda>w q m. None), hf_create = (\<lambda>w q. None),
       gemini_generate = (\<lambda>w q m. None), claude_create = (\<lambda>w q. None) \<rparr>"

definition plain_helpers :: extractor_helpers where
  "plain_helpers =
     \<lparr> split_sentences = (\<lambda>t. [t]), looks_factual = (\<lambda>s. True),
       infer_claim_type = (\<lambda>s. ''event''), normalize_claim = (\<lambda>s. s),
       generate_claim_id = (\<lambda>s. s) \<rparr>"

definition offline :: environment where
  "offline =
     \<lparr> router_env = no_providers, retriever_env = failing_sources, verifier_env = no_scorer,
       HALLUSHIELD_SLM_MODEL = None, langgraph = True, extractor = plain_helpers,
       floats = double_arith \<rparr>"

text \<open>A second request whose answer yields the same claim as \<^const>\<open>unsupported_state\<close>.\<close>

definition second_state :: state where
  "second_state =
     (initial_state ''Which city is the capital of France?'' None)
       \<lparr> raw_llm_response := Some ''Paris is the capital of France.'',
         claims := Some [paris_claim] \<rparr>"

text \<open>The pipeline object after the first request has stored its decisions.\<close>

definition after_first_run :: pipeline where
  "after_first_run = update_memory fresh_pipeline (assemble_answer (apply_policy unsupported_state))"

text \<open>A state whose metadata records the premium tier, with a hedging answer.\<close>

definition premium_state :: state where
  "premium_state =
     (initial_state ''Is it so?'' None)
       \<lparr> raw_llm_response := Some ''I'm not sure about this.'',
         llm_metadata := Some [(''provider'', VStr ''gemini''), (''model'', VStr ''gemini-2.5-flash''),
                               (''tier'', VStr ''llm''), (''tokens'', VInt 12),
                               (''cost'', VFloat 0)] \<rparr>"

section \<open>Verified properties\<close>

subsection \<open>Decision policy\<close>

lemma action_decide: "action (decide claim v ev) = rule_based_action v"
  by (simp add: decide_def Let_def)

text \<open>
  C1. For every verification result (all scores finite), \<open>decide\<close> returns a decision
  whose action is one of the four policy actions, and it is the action of the first rule
  that matches: support above 0.85 with contradiction below 0.1 gives ACCEPT; otherwise
  contradiction above 0.7 gives CORRECT; otherwise fewer than two sources or an evidence
  agreement below 0.5 gives ABSTAIN; otherwise FLAG_FOR_HUMAN. The four action names are
  pairwise different, so exactly one of them is returned.
\<close>

theorem decide_first_match_wins:
  "action (decide claim v ev) =
     (if support_score v > 0.85 \<and> contradiction_score v < 0.1 then ''ACCEPT''
      else if contradiction_score v > 0.7 then ''CORRECT''
      else if source_count v < 2 \<or> evidence_agreement v < 0.5 then ''ABSTAIN''
      else ''FLAG_FOR_HUMAN'')
   \<and> action (decide claim v ev) \<in> set policy_actions
   \<and> distinct policy_actions"
  by (simp add: action_decide rule_based_action_def policy_actions_def)

subsection \<open>Escalation at the cheap tier\<close>

text \<open>The characters of a class given by codes are the characters with these codes.\<close>

lemma char_cases:
  assumes "(of_char c :: nat) \<in> set ns"
  shows "c \<in> set (map char_of ns)"
proof -
  have "char_of (of_char c :: nat) \<in> char_of ` set ns" using assms by (rule imageI)
  then show ?thesis by simp
qed

lemma upper_chars:
  assumes "65 \<le> (of_char c :: nat)" "(of_char c :: nat) \<le> 90"
  shows "c \<in> set ''ABCDEFGHIJKLMNOPQRSTUVWXYZ''"
proof -
  have "(of_char c :: nat) \<in> {65..<91}" using assms by simp
  then have "(of_char c :: nat) \<in> set [65..<91]" by (simp only: set_upt)
  from char_cases[OF this] show ?thesis
    by (simp add: upt_rec char_of_def bit_Suc_0_iff)
qed

lemma space_chars: "is_space c = (c \<in> set whitespace)"
proof
  assume "is_space c"
  then have "(of_char c :: nat) \<in> {9..<14} \<union> {28..<33}"
    by (auto simp: is_space_def Let_def)
  then have "(of_char c :: nat) \<in> set ([9..<14] @ [28..<33])"
    by (simp only: set_upt set_append)
  from char_cases[OF this] show "c \<in> set whitespace"
    by (simp add: upt_rec char_of_def whitespace_def bit_Suc_0_iff)
next
  assume "c \<in> set whitespace"
  then show "is_space c" by (auto simp: whitespace_def is_space_def)
qed

text \<open>
  \<^const>\<open>lower_chr\<close> in terms of codes, and lowering compared with the agreement of
  letters of the specification.
\<close>

lemma lower_chr_code:
  "(of_char (lower_chr c) :: nat) =
     (if 65 \<le> (of_char c :: nat) \<and> (of_char c :: nat) \<le> 90 then of_char c + 32 else of_char c)"
proof (cases "c \<in> set ''ABCDEFGHIJKLMNOPQRSTUVWXYZ''")
  case True
  then show ?thesis by (auto simp: lower_chr_def)
next
  case False
  then have "\<not> (65 \<le> (of_char c :: nat) \<and> (of_char c :: nat) \<le> 90)"
    using upper_chars by blast
  moreover have "lower_chr c = c" using False by (auto simp: lower_chr_def)
  ultimately show ?thesis by simp
qed

lemma of_char_eq: "((of_char c :: nat) = of_char d) = (c = d)"
  by simp

lemma lower_chr_same_letter:
  assumes "\<not> (65 \<le> (of_char d :: nat) \<and> (of_char d :: nat) \<le> 90)"
  shows "(lower_chr c = d) = same_letter c d"
proof -
  have "(lower_chr c = d) = ((of_char (lower_chr c) :: nat) = of_char d)"
    by (simp add: of_char_eq)
  also have "\<dots> = same_letter c d"
    using assms unfolding lower_chr_code same_letter_def
    by (auto simp: of_char_eq)
  finally show ?thesis .
qed

lemma lower_same_letter:
  assumes "\<forall>d \<in> set p. \<not> (65 \<le> (of_char d :: nat) \<and> (of_char d :: nat) \<le> 90)"
  shows "(lower u = p) = list_all2 same_letter u p"
  using assms
proof (induction u arbitrary: p)
  case Nil
  then show ?case by (auto simp: lower_def)
next
  case (Cons c u)
  show ?case
  proof (cases p)
    case Nil
    then show ?thesis by (simp add: lower_def)
  next
    case (Cons d p')
    then show ?thesis
      using Cons.IH[of p'] Cons.prems lower_chr_same_letter[of d c]
      by (auto simp: lower_def)
  qed
qed

text \<open>
  The number of words \<^const>\<open>split\<close> returns is the number of positions at which a
  word starts.
\<close>

lemma length_filter_shift:
  "length (filter P [0..<Suc n]) = (if P 0 then 1 else 0) + length (filter (\<lambda>i. P (Suc i)) [0..<n])"
proof -
  have "[0..<Suc n] = 0 # map Suc [0..<n]"
    by (simp add: upt_conv_Cons map_Suc_upt del: upt_Suc)
  then show ?thesis by (simp add: filter_map comp_def del: upt_Suc)
qed

lemma starts_Cons:
  "length (filter (\<lambda>i. p ((c # cs) ! i) \<and> (if i = 0 then b else \<not> p ((c # cs) ! (i - 1))))
             [0..<length (c # cs)])
   = (if p c \<and> b then 1 else 0)
     + length (filter (\<lambda>i. p (cs ! i) \<and> (if i = 0 then \<not> p c else \<not> p (cs ! (i - 1))))
                 [0..<length cs])"
proof -
  let ?P = "\<lambda>i. p ((c # cs) ! i) \<and> (if i = 0 then b else \<not> p ((c # cs) ! (i - 1)))"
  have 2: "(\<lambda>i. ?P (Suc i))
         = (\<lambda>i. p (cs ! i) \<and> (if i = 0 then \<not> p c else \<not> p (cs ! (i - 1))))"
  proof (rule ext)
    fix i show "?P (Suc i) = (p (cs ! i) \<and> (if i = 0 then \<not> p c else \<not> p (cs ! (i - 1))))"
      by (cases i) simp_all
  qed
  have "length (filter ?P [0..<length (c # cs)])
      = (if ?P 0 then 1 else 0) + length (filter (\<lambda>i. ?P (Suc i)) [0..<length cs])"
    unfolding length_Cons by (rule length_filter_shift)
  also have "(if ?P 0 then 1 else 0) = (if p c \<and> b then 1 else (0::nat))" by simp
  finally show ?thesis unfolding 2 .
qed

lemma length_runs_starts:
  "length (runs p w s)
     = length (filter (\<lambda>i. p (s ! i) \<and> (if i = 0 then w = [] else \<not> p (s ! (i - 1)))) [0..<length s])
       + (if w = [] then 0 else 1)"
proof (induction s arbitrary: w)
  case Nil
  then show ?case by simp
next
  case (Cons c cs)
  have t: "(\<lambda>i. p (cs ! i) \<and> (if i = 0 then (w @ [c]) = [] else \<not> p (cs ! (i - 1))))
         = (\<lambda>i. p (cs ! i) \<and> (if i = 0 then False else \<not> p (cs ! (i - 1))))" by simp
  have f: "(\<lambda>i. p (cs ! i) \<and> (if i = 0 then ([]::string) = [] else \<not> p (cs ! (i - 1))))
         = (\<lambda>i. p (cs ! i) \<and> (if i = 0 then True else \<not> p (cs ! (i - 1))))" by simp
  show ?case
  proof (cases "p c")
    case True
    then show ?thesis
      unfolding starts_Cons[of p c cs "w = []"]
      using Cons.IH[of "w @ [c]", unfolded t]
      by (simp del: upt_Suc)
  next
    case False
    then show ?thesis
      unfolding starts_Cons[of p c cs "w = []"]
      using Cons.IH[of "[]", unfolded f]
      by (simp del: upt_Suc)
  qed
qed

lemma length_split: "length (split s) = word_count s"
proof -
  have "(\<lambda>i. \<not> is_space (s ! i) \<and> (if i = 0 then ([]::string) = [] else \<not> \<not> is_space (s ! (i - 1))))
      = (\<lambda>i. s ! i \<notin> set whitespace \<and> (i = 0 \<or> s ! (i - 1) \<in> set whitespace))"
    by (rule ext) (simp add: space_chars)
  then show ?thesis
    unfolding split_def word_count_def length_runs_starts[of _ "[]"] by simp
qed

lemma contains_sublist: "contains hay needle = sublist needle hay"
  by (induction hay) (auto simp: sublist_Cons_right)

lemma lower_chr_space: "is_space (lower_chr c) = is_space c"
proof (cases "map_of (zip ''ABCDEFGHIJKLMNOPQRSTUVWXYZ'' ''abcdefghijklmnopqrstuvwxyz'') c")
  case None
  then show ?thesis by (simp add: lower_chr_def)
next
  case (Some d)
  then have "\<not> is_space c \<and> \<not> is_space d"
    by (auto simp: is_space_def split: if_splits)
  with Some show ?thesis by (simp add: lower_chr_def)
qed

lemma length_runs_map:
  assumes "\<And>c. p (f c) = p c"
  shows "(w = [] \<longleftrightarrow> w' = []) \<Longrightarrow> length (runs p w (map f s)) = length (runs p w' s)"
proof (induction s arbitrary: w w')
  case Nil
  then show ?case by simp
next
  case (Cons c s)
  show ?case
  proof (cases "p c")
    case True
    then show ?thesis using assms Cons.IH[of "w @ [f c]" "w' @ [c]"] by simp
  next
    case False
    then show ?thesis using assms Cons.prems Cons.IH[of "[]" "[]"] by simp
  qed
qed

lemma word_count_lower: "length (split (lower s)) = word_count s"
  unfolding length_split[symmetric] split_def lower_def
  by (rule length_runs_map) (simp_all add: lower_chr_space)

lemma sublist_lower_iff:
  "sublist p (lower raw) \<longleftrightarrow> (\<exists>pre u post. raw = pre @ u @ post \<and> lower u = p)"
proof
  assume "sublist p (lower raw)"
  then obtain a b where "map lower_chr raw = a @ p @ b"
    unfolding sublist_def lower_def by auto
  then obtain pre rest where 1: "raw = pre @ rest" and "map lower_chr rest = p @ b"
    by (metis map_eq_append_conv)
  then obtain u post where "rest = u @ post" and "map lower_chr u = p"
    by (metis map_eq_append_conv)
  with 1 show "\<exists>pre u post. raw = pre @ u @ post \<and> lower u = p"
    unfolding lower_def by blast
next
  assume "\<exists>pre u post. raw = pre @ u @ post \<and> lower u = p"
  then obtain pre u post where "raw = pre @ u @ post" and "lower u = p" by blast
  then have "lower raw = lower pre @ p @ lower post"
    by (auto simp: lower_def)
  then show "sublist p (lower raw)"
    unfolding sublist_def by blast
qed

lemma phrases_small:
  "phrase \<in> set hedging_phrases \<Longrightarrow>
     \<forall>d \<in> set phrase. \<not> (65 \<le> (of_char d :: nat) \<and> (of_char d :: nat) \<le> 90)"
  by (auto simp: hedging_phrases_def)

lemma hedges_code: "list_ex (\<lambda>phrase. contains (lower raw) phrase) uncertainty_phrases = hedges raw"
proof -
  have "uncertainty_phrases = hedging_phrases"
    by (simp add: uncertainty_phrases_def hedging_phrases_def)
  then show ?thesis
    unfolding hedges_def list_ex_iff contains_sublist sublist_lower_iff
    using lower_same_letter[OF phrases_small] by metis
qed

lemma mock_text: "mock_response st = Inr r \<Longrightarrow> text_m r = state_get (raw_llm_response st) ''''"
  by (auto simp: mock_response_def Let_def split: option.splits)

text \<open>The rounding of a positive number whose binary exponent is known, and some values.\<close>

lemma round_double_eq:
  assumes "0 < x" "2 powr of_int k \<le> x" "x < 2 powr of_int (k + 1)"
  shows "round_double x = of_int (round_half_even (x / 2 powr of_int (k - 52))) * 2 powr of_int (k - 52)"
proof -
  have "\<lfloor>log 2 \<bar>x\<bar>\<rfloor> = k"
    using assms by (simp add: floor_log_eq_powr_iff)
  then show ?thesis using assms(1) by (simp add: round_double_def Let_def)
qed

lemma round_double_values:
  "round_double 0 = 0"
  "round_double 1 = 1"
  "round_double (1 / 2) = 1 / 2"
  "round_double (1 / 4) = 1 / 4"
proof -
  show "round_double 0 = 0" by (simp add: round_double_def)
  have "round_double 1 = of_int (round_half_even (1 / 2 powr of_int (0 - 52))) * 2 powr of_int (0 - 52)"
    by (rule round_double_eq) simp_all
  then show "round_double 1 = 1"
    by (simp add: powr_minus_divide round_half_even_def Let_def)
  have "round_double (1 / 2) = of_int (round_half_even (1 / 2 / 2 powr of_int (- 1 - 52))) * 2 powr of_int (- 1 - 52)"
    by (rule round_double_eq) (simp_all add: powr_minus_divide)
  then show "round_double (1 / 2) = 1 / 2"
    by (simp add: powr_minus_divide round_half_even_def Let_def)
  have "round_double (1 / 4) = of_int (round_half_even (1 / 4 / 2 powr of_int (- 2 - 52))) * 2 powr of_int (- 2 - 52)"
    by (rule round_double_eq) (simp_all add: powr_minus_divide)
  then show "round_double (1 / 4) = 1 / 4"
    by (simp add: powr_minus_divide round_half_even_def Let_def)
qed

lemma round_double_near_one:
  "round_double (4458563631096791 / 4503599627370496) = 4458563631096791 / 4503599627370496"
  "round_double (4458563631096791 / 4503599627370496 + 5764607523034235 / 576460752303423488) = 1"
proof -
  have "round_double (4458563631096791 / 4503599627370496)
      = of_int (round_half_even (4458563631096791 / 4503599627370496 / 2 powr of_int (- 1 - 52)))
          * 2 powr of_int (- 1 - 52)"
    by (rule round_double_eq) (simp_all add: powr_minus_divide)
  then show "round_double (4458563631096791 / 4503599627370496) = 4458563631096791 / 4503599627370496"
    by (simp add: powr_minus_divide round_half_even_def Let_def)
  have "round_double (4458563631096791 / 4503599627370496 + 5764607523034235 / 576460752303423488)
      = of_int (round_half_even ((4458563631096791 / 4503599627370496
                                   + 5764607523034235 / 576460752303423488) / 2 powr of_int (- 1 - 52)))
          * 2 powr of_int (- 1 - 52)"
    by (rule round_double_eq) (simp_all add: powr_minus_divide)
  then show "round_double (4458563631096791 / 4503599627370496 + 5764607523034235 / 576460752303423488) = 1"
    by (simp add: powr_minus_divide round_half_even_def Let_def)
qed

lemma cheap_state_mock:
  "mock_response (cheap_state raw results) =
     Inr \<lparr> text_m = raw, model = ''llama'', provider = ''groq'',
           tier = ''slm'', tokens = 12, cost = 0, metadata = [] \<rparr>"
  by (simp add: mock_response_def cheap_state_def initial_state_def state_get_def get_def
      as_str_def as_int_def as_float_def)

lemma cheap_state_tier:
  "get (state_get (llm_metadata (cheap_state raw results)) []) ''tier'' (VStr ''slm'') \<noteq> VStr ''llm''"
  by (simp add: cheap_state_def initial_state_def state_get_def get_def)

lemma cheap_state_fields:
  "state_get (raw_llm_response (cheap_state raw results)) '''' = raw"
  "state_get (verification_results (cheap_state raw results)) [] = results"
  by (simp_all add: cheap_state_def initial_state_def state_get_def)

lemma tower_answer_plain:
  "\<not> list_ex (\<lambda>phrase. contains (lower tower_answer) phrase) uncertainty_phrases"
  "length (split (lower tower_answer)) = 11"
  by (simp_all add: tower_answer_def uncertainty_phrases_def lower_def lower_chr_def split_def is_space_def)

lemma example_texts:
  "hedges ''I'm not sure about this.''"
  "\<not> hedges ''Paris, in 1889.''"
  "\<not> hedges tower_answer"
  "word_count ''Paris, in 1889.'' = 3"
  "word_count tower_answer = 11"
  unfolding hedges_code[symmetric] length_split[symmetric]
  by (simp_all add: tower_answer_def uncertainty_phrases_def lower_def lower_chr_def split_def
      is_space_def)

text \<open>
  C3, as stated, fails: the mean the code compares with 0.5 is computed in float
  arithmetic. For an answer of eleven words without a hedging phrase and two verified
  claims that are not problematic, with the support scores \<^verbatim>\<open>0.99\<close> and \<^verbatim>\<open>0.01\<close>
  (the floats 4458563631096791 / 2^52 and 5764607523034235 / 2^59), the sum of the two
  floats is rounded to 1.0 and the confidence is 0.5, so that the check does not escalate;
  the mean of the two scores is below 0.5 (by 5 / 2^60), for which rule (c) of the
  specification asks for an escalation.
\<close>

theorem rounded_mean_counterexample:
  "(\<exists>st'. snd (check_escalation double_arith fresh_pipeline (cheap_state tower_answer near_half_results))
            = Inr st'
         \<and> should_escalate_s st' = Some False
         \<and> confidence_detected st' = Some (1 / 2))
   \<and> reference_confidence exact_arith (map snd near_half_results) < 0.5
   \<and> reference_escalation exact_arith tower_answer (map snd near_half_results)"
proof -
  let ?a = "4458563631096791 / 4503599627370496 :: real"
  let ?b = "5764607523034235 / 576460752303423488 :: real"
  have "map support_score (map snd near_half_results) = [?a, ?b]"
    by (simp add: near_half_results_def scored_def)
  moreover have "py_sum double_arith [?a, ?b] = round_double (round_double (0 + ?a) + ?b)"
    unfolding double_arith_def by (simp only: float_arith.simps foldl.simps)
  moreover have "round_double (round_double (0 + ?a) + ?b) = 1"
    by (simp only: add_0 round_double_near_one)
  ultimately have s: "py_sum double_arith (map support_score (map snd near_half_results)) = 1"
    by (simp only:)
  have c: "py_div double_arith 1 2 = 1 / 2" "py_div double_arith 0 2 = 0"
    by (simp_all add: double_arith_def round_double_values)
  have l: "length near_half_results = 2"
    by (simp add: near_half_results_def)
  have ne: "near_half_results \<noteq> []"
    by (simp add: near_half_results_def)
  have np: "filter problematic (map snd near_half_results) = []"
    by (simp add: near_half_results_def scored_def problematic_def)
  have 1: "\<exists>st'. snd (check_escalation double_arith fresh_pipeline (cheap_state tower_answer near_half_results))
            = Inr st'
         \<and> should_escalate_s st' = Some False
         \<and> confidence_detected st' = Some (1 / 2)"
    using tower_answer_plain
    by (simp add: check_escalation_def Let_def cheap_state_mock cheap_state_fields cheap_state_tier
        should_escalate_def s[unfolded map_map] c np l ne)
  have 2: "reference_confidence exact_arith (map snd near_half_results) < 0.5"
    by (simp add: reference_confidence_def exact_arith_def near_half_results_def scored_def)
  from 1 2 show ?thesis by (simp add: reference_escalation_def)
qed

text \<open>
  C3, amended. When the tier recorded in the metadata is not \<open>llm\<close> (the cheap tier,
  also when no tier is recorded) and the metadata passes the validation of the response
  model, the escalation check returns, and its verdict is the reference verdict of the
  specification on the raw text and the verification results, with the quotient of rule
  (b) and the mean of rule (c) computed in the float arithmetic of the interpreter
  (whatever that arithmetic is): hedging phrase, else hallucination score above 0.3, else
  confidence below 0.5, else fewer than ten words, else no escalation. The reason is the
  uncertainty reason exactly when the text hedges.
\<close>

theorem check_escalation_slm_tier:
  assumes "get (state_get (llm_metadata st) []) ''tier'' (VStr ''slm'') \<noteq> VStr ''llm''"
      and "mock_response st = Inr r"
  shows "\<exists>st'. snd (check_escalation arith self st) = Inr st'
           \<and> should_escalate_s st' =
               Some (reference_escalation arith (state_get (raw_llm_response st) '''')
                       (map snd (state_get (verification_results st) [])))
           \<and> (escalation_reason st' = Some SLM_expressed_uncertainty)
               = hedges (state_get (raw_llm_response st) '''')"
proof -
  have p: "problematic = (\<lambda>v. contradiction_score v > 0.5 \<or> neutral_score v > 0.7)"
    by (rule ext) (simp add: problematic_def)
  show ?thesis
    using assms mock_text[OF assms(2)]
    by (simp add: check_escalation_def Let_def should_escalate_def hedges_code word_count_lower
        reference_escalation_def reference_hallucination_score_def reference_confidence_def p)
qed

theorem check_escalation_slm_tier_witness:
  "get (state_get (llm_metadata (cheap_state tower_answer [])) []) ''tier'' (VStr ''slm'') \<noteq> VStr ''llm''
   \<and> (\<exists>st'. snd (check_escalation double_arith fresh_pipeline
                 (cheap_state ''I'm not sure about this.'' [])) = Inr st'
         \<and> should_escalate_s st' = Some True
         \<and> escalation_reason st' = Some SLM_expressed_uncertainty)
   \<and> (\<exists>st'. snd (check_escalation double_arith fresh_pipeline
                 (cheap_state tower_answer [(''c1'', scored 0.9 0.8 0)])) = Inr st'
         \<and> should_escalate_s st' = Some True)
   \<and> (\<exists>st'. snd (check_escalation double_arith fresh_pipeline
                 (cheap_state tower_answer [(''c1'', scored (1 / 4) 0 0)])) = Inr st'
         \<and> should_escalate_s st' = Some True)
   \<and> (\<exists>st'. snd (check_escalation double_arith fresh_pipeline
                 (cheap_state ''Paris, in 1889.'' [])) = Inr st'
         \<and> should_escalate_s st' = Some True)
   \<and> (\<exists>st'. snd (check_escalation double_arith fresh_pipeline
                 (cheap_state tower_answer [])) = Inr st'
         \<and> should_escalate_s st' = Some False)"
proof -
  have d: "py_div double_arith 1 1 = 1" "py_div double_arith 0 1 = 0"
          "py_div double_arith (1 / 4) 1 = 1 / 4" "py_sum double_arith [1 / 4] = 1 / 4"
    by (simp_all add: double_arith_def round_double_values)
  have r: "reference_escalation double_arith ''I'm not sure about this.'' [] = True"
          "reference_escalation double_arith tower_answer [scored 0.9 0.8 0] = True"
          "reference_escalation double_arith tower_answer [scored (1 / 4) 0 0] = True"
          "reference_escalation double_arith ''Paris, in 1889.'' [] = True"
          "reference_escalation double_arith tower_answer [] = False"
    by (simp_all add: reference_escalation_def reference_hallucination_score_def
        reference_confidence_def scored_def example_texts d)
  show ?thesis
    using check_escalation_slm_tier[OF cheap_state_tier cheap_state_mock,
            of double_arith fresh_pipeline "''I'm not sure about this.''" "[]"]
          check_escalation_slm_tier[OF cheap_state_tier cheap_state_mock,
            of double_arith fresh_pipeline tower_answer "[(''c1'', scored 0.9 0.8 0)]"]
          check_escalation_slm_tier[OF cheap_state_tier cheap_state_mock,
            of double_arith fresh_pipeline tower_answer "[(''c1'', scored (1 / 4) 0 0)]"]
          check_escalation_slm_tier[OF cheap_state_tier cheap_state_mock,
            of double_arith fresh_pipeline "''Paris, in 1889.''" "[]"]
          check_escalation_slm_tier[OF cheap_state_tier cheap_state_mock,
            of double_arith fresh_pipeline tower_answer "[]"]
          example_texts(1) cheap_state_tier[of tower_answer "[]"]
    unfolding cheap_state_fields list.map snd_conv r
    by blast
qed

subsection \<open>Answer assembly\<close>

lemma contains_Nil: "contains s []"
  by (cases s) simp_all

text \<open>What \<^const>\<open>replace\<close> does to the first occurrence, and when there is none.\<close>

lemma replace_absent: "\<not> contains s old \<Longrightarrow> replace s old new = s"
proof (induction s)
  case Nil
  then show ?case by simp
next
  case (Cons c cs)
  then show ?case by (cases "old = []") (auto simp: contains_Nil)
qed

lemma replace_at_front:
  "old \<noteq> [] \<Longrightarrow> replace (old @ post) old new = new @ replace post old new"
  by (cases old) simp_all

lemma replace_first_occurrence:
  "old \<noteq> [] \<Longrightarrow> \<forall>k < length pre. \<not> prefix old (drop k (pre @ old @ post)) \<Longrightarrow>
     replace (pre @ old @ post) old new = pre @ new @ replace post old new"
proof (induction pre)
  case Nil
  then show ?case by (simp add: replace_at_front)
next
  case (Cons c pre)
  have "\<not> prefix old (c # pre @ old @ post)"
    using Cons.prems(2)[rule_format, of 0] by simp
  moreover have "\<forall>k < length pre. \<not> prefix old (drop k (pre @ old @ post))"
    using Cons.prems(2) by (metis Suc_less_eq append_Cons drop_Suc_Cons length_Cons)
  ultimately show ?case using Cons by simp
qed

text \<open>
  \<^const>\<open>replace\<close> replaces as the specification words it: it is the reference
  replacement.
\<close>

lemma replace_empty: "replace s [] new = concat (map (\<lambda>c. new @ [c]) s) @ new"
  by (induction s) simp_all

lemma prefix_take: "prefix old t = (take (length old) t = old)"
  by (metis append_eq_conv_conj prefixE take_is_prefix)

lemma occurrence_at:
  "sublist old s = (\<exists>i \<le> length s. take (length old) (drop i s) = old)"
proof
  assume "sublist old s"
  then obtain pre post where "s = pre @ old @ post" unfolding sublist_def by blast
  then have "length pre \<le> length s \<and> take (length old) (drop (length pre) s) = old" by simp
  then show "\<exists>i \<le> length s. take (length old) (drop i s) = old" by blast
next
  assume "\<exists>i \<le> length s. take (length old) (drop i s) = old"
  then obtain i where "take (length old) (drop i s) = old" by blast
  then have "s = take i s @ old @ drop (length old) (drop i s)"
    by (metis append_take_drop_id)
  then show "sublist old s" unfolding sublist_def by blast
qed

lemma replace_reference: "replace s old new = reference_replace s old new"
proof (induction s old new rule: reference_replace.induct)
  case (1 s old new)
  let ?P = "\<lambda>i. take (length old) (drop i s) = old"
  show ?case
  proof (cases "old = []")
    case True
    then show ?thesis by (simp add: replace_empty reference_replace.simps[of s])
  next
    case False
    show ?thesis
    proof (cases "find ?P [0..<length s]")
      case None
      then have n: "\<forall>i < length s. \<not> ?P i" by (auto simp: find_None_iff)
      have "\<not> ?P (length s)" using False by auto
      with n have "\<forall>i \<le> length s. \<not> ?P i" by (metis le_neq_implies_less)
      then have "\<not> contains s old" unfolding contains_sublist occurrence_at by blast
      then show ?thesis using False None by (simp add: replace_absent reference_replace.simps[of s])
    next
      case (Some i)
      then have i: "i < length s" "?P i" "\<forall>j < i. \<not> ?P j"
        by (auto simp: find_Some_iff)
      have s: "s = take i s @ old @ drop (i + length old) s"
        using i(2) by (metis add.commute append_take_drop_id drop_drop)
      have "\<forall>k < length (take i s). \<not> prefix old (drop k s)"
        using i(1,3) by (simp add: prefix_take)
      then have "\<forall>k < length (take i s). \<not> prefix old (drop k (take i s @ old @ drop (i + length old) s))"
        using s by simp
      from replace_first_occurrence[OF False this, of new]
      have "replace s old new = take i s @ new @ replace (drop (i + length old) s) old new"
        using s by simp
      also have "replace (drop (i + length old) s) old new
               = reference_replace (drop (i + length old) s) old new"
        using "1.IH"[OF False Some] .
      finally show ?thesis using False Some by (simp add: reference_replace.simps[of s])
    qed
  qed
qed

lemma assemble_loop_answer:
  "fst (assemble_loop ds answer mods) = reference_rewrite answer ds"
  by (induction ds arbitrary: answer mods)
     (auto simp: reference_rewrite_def carries_correction_def truthy_def replace_reference
        split: option.splits)

lemma count_problematic:
  "real (length (filter (\<lambda>d. action d = ''CORRECT'' \<or> action d = ''FLAG_FOR_HUMAN'') ds))
     = real (count_action ''CORRECT'' ds) + real (count_action ''FLAG_FOR_HUMAN'' ds)"
  by (induction ds) (auto simp: count_action_def)

text \<open>
  C4. For every state, whatever its list of decisions, answer assembly returns a final
  answer whose hallucination score is the number of CORRECT decisions plus the number of
  FLAG_FOR_HUMAN decisions, divided by the number of decisions, and 0 when there is no
  decision; whose confidence is 1 minus that score; and whose verified answer is the raw
  answer in which, for each CORRECT decision that carries a corrected claim, in order,
  the original claim has been replaced, wherever it occurs as a literal substring (the
  occurrences found from the left), by the corrected claim followed by " [CORRECTED]".
\<close>

theorem assemble_answer_scores:
  "\<exists>fa. final_answer (assemble_answer st) = Some fa
     \<and> hallucination_score fa =
         (if state_get (decisions st) [] = [] then 0
          else (real (count_action ''CORRECT'' (state_get (decisions st) []))
                + real (count_action ''FLAG_FOR_HUMAN'' (state_get (decisions st) [])))
               / real (length (state_get (decisions st) [])))
     \<and> confidence_f fa = 1 - hallucination_score fa
     \<and> verified_answer fa =
         reference_rewrite (state_get (raw_llm_response st) '''') (state_get (decisions st) [])"
  by (simp add: assemble_answer_def Let_def assemble_loop_answer count_problematic)

lemma spain_rewrite:
  "reference_replace ''Paris is in Spain. It is a large city.'' ''Paris is in Spain.''
     ''Paris is in France. [CORRECTED]'' = ''Paris is in France. [CORRECTED] It is a large city.''"
  by (simp add: reference_replace.simps)

theorem assemble_answer_scores_witness:
  "\<exists>fa. final_answer (assemble_answer spain_state) = Some fa
     \<and> hallucination_score fa = 1 / 2
     \<and> confidence_f fa = 1 / 2
     \<and> verified_answer fa = ''Paris is in France. [CORRECTED] It is a large city.''"
proof -
  have "reference_rewrite (state_get (raw_llm_response spain_state) '''')
          (state_get (decisions spain_state) [])
        = ''Paris is in France. [CORRECTED] It is a large city.''"
    by (simp add: reference_rewrite_def carries_correction_def spain_state_def initial_state_def
        state_get_def spain_rewrite)
  moreover have "state_get (decisions spain_state) [] \<noteq> []"
       "count_action ''CORRECT'' (state_get (decisions spain_state) []) = 1"
       "count_action ''FLAG_FOR_HUMAN'' (state_get (decisions spain_state) []) = 0"
       "length (state_get (decisions spain_state) []) = 2"
    by (simp_all add: spain_state_def initial_state_def state_get_def count_action_def)
  ultimately show ?thesis
    using assemble_answer_scores[of spain_state] by auto
qed

subsection \<open>Runs without cache hits\<close>

lemma assemble_loop_no_correction:
  "(\<And>d. d \<in> set ds \<Longrightarrow> corrected_claim d = None) \<Longrightarrow> fst (assemble_loop ds answer mods) = answer"
  by (induction ds arbitrary: answer mods) (auto simp: truthy_def)

lemma decision_for_uncached:
  "map_of (state_get (cached_claims st) []) (id_c c) = None \<Longrightarrow> corrected_claim (decision_for st c) = None"
  by (simp add: decision_for_def decide_def Let_def)

text \<open>
  C10. Every decision that \<open>decide\<close> builds has no corrected claim. Hence, when no claim
  of the state is found in the cache, the policy stage followed by answer assembly leaves
  the answer as generated: the verified answer is the raw text, character for character.
\<close>

theorem no_cache_hits_answer_unchanged:
  assumes "\<forall>c \<in> set (state_get (claims st) []). map_of (state_get (cached_claims st) []) (id_c c) = None"
  shows "corrected_claim (decide claim v ev) = None
       \<and> (\<exists>fa. final_answer (assemble_answer (apply_policy st)) = Some fa
              \<and> verified_answer fa = state_get (raw_llm_response st) '''')"
proof -
  have "\<And>d. d \<in> set (map (decision_for st) (state_get (claims st) [])) \<Longrightarrow> corrected_claim d = None"
    using assms decision_for_uncached by auto
  then have "fst (assemble_loop (map (decision_for st) (state_get (claims st) []))
                   (state_get (raw_llm_response st) '''') []) = state_get (raw_llm_response st) ''''"
    by (rule assemble_loop_no_correction)
  then show ?thesis
    by (simp add: assemble_answer_def apply_policy_def Let_def decide_def state_get_def)
qed

theorem no_cache_hits_answer_unchanged_witness:
  "\<exists>fa. final_answer (assemble_answer (apply_policy unsupported_state)) = Some fa
      \<and> verified_answer fa = ''Paris is the capital of France.''"
proof -
  have "\<forall>c \<in> set (state_get (claims unsupported_state) []).
          map_of (state_get (cached_claims unsupported_state) []) (id_c c) = None"
    by (simp add: unsupported_state_def initial_state_def state_get_def)
  from no_cache_hits_answer_unchanged[OF this]
  show ?thesis
    by (simp add: unsupported_state_def initial_state_def state_get_def)
qed

subsection \<open>Heuristic verification\<close>













subsection \<open>Permissive parsing of the scorer's reply\<close>

lemma brace_span_found:
  assumes "CHR ''{'' \<notin> set pre" "CHR ''}'' \<notin> set post"
  shows "brace_span (pre @ CHR ''{'' # mid @ CHR ''}'' # post) = Some (CHR ''{'' # mid @ [CHR ''}''])"
proof -
  have 1: "dropWhile (\<lambda>c. c \<noteq> CHR ''{'') (pre @ CHR ''{'' # mid @ CHR ''}'' # post)
             = CHR ''{'' # mid @ CHR ''}'' # post"
    using assms(1) by (auto simp: dropWhile_append3)
  have 2: "dropWhile (\<lambda>c. c \<noteq> CHR ''}'') (rev (mid @ CHR ''}'' # post)) = CHR ''}'' # rev mid"
    using assms(2) by (auto simp: dropWhile_append3)
  have 3: "dropWhile (\<lambda>c. c \<noteq> CHR ''}'') (rev post @ CHR ''}'' # rev mid) = CHR ''}'' # rev mid"
    using 2 by simp
  show ?thesis
    unfolding brace_span_def 1 by (simp add: 3)
qed

lemma brace_span_none:
  assumes "\<nexists>pre mid post. s = pre @ CHR ''{'' # mid @ CHR ''}'' # post"
  shows "brace_span s = None"
proof (cases "dropWhile (\<lambda>c. c \<noteq> CHR ''{'') s")
  case Nil
  show ?thesis unfolding brace_span_def Nil by simp
next
  case (Cons b rest)
  then have b: "b = CHR ''{''"
    using hd_dropWhile[of "\<lambda>c. c \<noteq> CHR ''{''" s] by (metis list.distinct(1) list.sel(1))
  have s: "s = takeWhile (\<lambda>c. c \<noteq> CHR ''{'') s @ CHR ''{'' # rest"
    using Cons b takeWhile_dropWhile_id[of "\<lambda>c. c \<noteq> CHR ''{''" s] by simp
  have "CHR ''}'' \<notin> set rest"
  proof
    assume "CHR ''}'' \<in> set rest"
    then obtain mid post where "rest = mid @ CHR ''}'' # post"
      by (meson split_list)
    with s assms show False by metis
  qed
  then have d: "dropWhile (\<lambda>c. c \<noteq> CHR ''}'') (rev rest) = []"
    by auto
  show ?thesis unfolding brace_span_def Cons by (simp add: d)
qed

text \<open>
  C8, as stated, fails: on a reply that holds two verdict objects the direct parse fails,
  the first balanced-brace substring is the first object and parses, yet the parser
  returns nothing, because it parses the text from the first opening brace to the last
  closing brace, which is the whole reply.
\<close>

theorem parse_json_counterexample:
  "parse_json sample_loads two_verdicts = None
   \<and> reference_parse sample_loads two_verdicts = Some (JObj [(''support_score'', JNum 0.9)])"
  by (simp add: parse_json_def reference_parse_def sample_loads_def two_verdicts_def
      verdict_text_def brace_span_def)

text \<open>
  C8, amended. The parser first tries a direct parse and returns its value when it succeeds
  (a parsed \<^verbatim>\<open>null\<close> is Python's \<^verbatim>\<open>None\<close>, the value that also signals failure).
  When the direct parse fails, it parses the substring from the first opening brace to the
  last closing brace of the text and returns that value; when no closing brace follows an
  opening brace, or that substring does not parse, it returns \<^verbatim>\<open>None\<close>.
\<close>

theorem parse_json_behaviour:
  "(loads s = Some v \<longrightarrow> parse_json loads s = py_value v)
   \<and> (loads s = None \<and> s = pre @ CHR ''{'' # mid @ CHR ''}'' # post
        \<and> CHR ''{'' \<notin> set pre \<and> CHR ''}'' \<notin> set post
      \<longrightarrow> parse_json loads s =
            (case loads (CHR ''{'' # mid @ [CHR ''}'']) of None \<Rightarrow> None | Some x \<Rightarrow> py_value x))
   \<and> (loads s = None \<and> (\<nexists>pre mid post. s = pre @ CHR ''{'' # mid @ CHR ''}'' # post)
      \<longrightarrow> parse_json loads s = None)"
  by (auto simp: parse_json_def brace_span_found brace_span_none split: option.splits)


lemma no_brace: "CHR ''{'' \<notin> set s \<Longrightarrow> \<nexists>pre mid post. s = pre @ CHR ''{'' # mid @ CHR ''}'' # post"
  by auto

theorem parse_json_behaviour_witness:
  "parse_json sample_loads verdict_text = Some (JObj [(''support_score'', JNum 0.9)])
   \<and> parse_json sample_loads (''Verdict: '' @ verdict_text @ '' (done)'')
       = Some (JObj [(''support_score'', JNum 0.9)])
   \<and> parse_json sample_loads ''no verdict'' = None"
proof -
  have a: "sample_loads verdict_text = Some (JObj [(''support_score'', JNum 0.9)])"
    by (simp add: sample_loads_def)
  have b: "sample_loads (''Verdict: '' @ verdict_text @ '' (done)'') = None"
    by (simp add: sample_loads_def verdict_text_def)
  have c: "''Verdict: '' @ verdict_text @ '' (done)''
             = ''Verdict: '' @ CHR ''{'' # ([CHR 0x22] @ ''support_score'' @ [CHR 0x22] @ '': 0.9'')
                 @ CHR ''}'' # '' (done)''"
    by (simp add: verdict_text_def)
  have d: "sample_loads ''no verdict'' = None"
    by (simp add: sample_loads_def verdict_text_def)
  have e: "\<nexists>pre mid post. ''no verdict'' = pre @ CHR ''{'' # mid @ CHR ''}'' # post"
    by (rule no_brace) simp
  have 1: "parse_json sample_loads verdict_text = Some (JObj [(''support_score'', JNum 0.9)])"
    using parse_json_behaviour[of sample_loads verdict_text] a by (simp add: py_value_def)
  have 2: "parse_json sample_loads (''Verdict: '' @ verdict_text @ '' (done)'')
             = Some (JObj [(''support_score'', JNum 0.9)])"
    using parse_json_behaviour[of sample_loads "''Verdict: '' @ verdict_text @ '' (done)''" _
        "''Verdict: ''" "[CHR 0x22] @ ''support_score'' @ [CHR 0x22] @ '': 0.9''" "'' (done)''"]
      b c a
    by (simp add: py_value_def verdict_text_def)
  have 3: "parse_json sample_loads ''no verdict'' = None"
    using parse_json_behaviour[of sample_loads "''no verdict''"] d e by blast
  from 1 2 3 show ?thesis by blast
qed

subsection \<open>Evidence providers that fail\<close>











subsection \<open>The calls of the retrieval and verification stages\<close>

lemma extract_sentence_id:
  "extract_sentence h p = Some c \<Longrightarrow> id_c c = generate_claim_id h (text_c c)"
  by (auto simp: extract_sentence_def Let_def split: if_splits)

lemma in_map_filter: "y \<in> set (List.map_filter f xs) \<Longrightarrow> \<exists>x \<in> set xs. f x = Some y"
  by (auto simp: List.map_filter_def)

lemma ids_by_text_extract: "ids_by_text (extract_text h t)"
  unfolding ids_by_text_def extract_text_def
  by (auto dest!: in_map_filter extract_sentence_id)

lemma retrieve_loop_calls:
  "\<exists>xs. fst (retrieve_loop env cached cs w em) = w @ xs
        \<and> (\<forall>i t. Retrieval i t \<in> set xs \<longrightarrow> map_of cached i = None)
        \<and> (\<forall>i t. Scoring i t \<notin> set xs)"
proof (induction cs arbitrary: w em)
  case Nil
  then show ?case by simp
next
  case (Cons c cs)
  show ?case
  proof (cases "map_of cached (id_c c) \<noteq> None")
    case True
    then show ?thesis using Cons.IH[of w em] by simp
  next
    case False
    show ?thesis
    proof (cases "retrieve env w (text_c c) 5")
      case (Inl e)
      then show ?thesis using False by simp
    next
      case (Inr ev)
      obtain xs where "fst (retrieve_loop env cached cs (w @ [Retrieval (id_c c) (text_c c)])
                         (AList.update (id_c c) ev em)) = (w @ [Retrieval (id_c c) (text_c c)]) @ xs"
        and "\<forall>i t. Retrieval i t \<in> set xs \<longrightarrow> map_of cached i = None"
        and "\<forall>i t. Scoring i t \<notin> set xs"
        using Cons.IH by blast
      then show ?thesis using False Inr
        by (intro exI[of _ "Retrieval (id_c c) (text_c c) # xs"]) auto
    qed
  qed
qed

lemma retrieve_loop_map:
  "snd (retrieve_loop env cached cs w em) = Inr em' \<Longrightarrow> map_of cached i \<noteq> None
     \<Longrightarrow> map_of em' i = map_of em i"
proof (induction cs arbitrary: w em)
  case Nil
  then show ?case by simp
next
  case (Cons c cs)
  show ?case
  proof (cases "map_of cached (id_c c) \<noteq> None")
    case True
    then show ?thesis using Cons by simp
  next
    case False
    then have ne: "id_c c \<noteq> i" using Cons.prems(2) by auto
    show ?thesis
    proof (cases "retrieve env w (text_c c) 5")
      case (Inl e)
      then show ?thesis using False Cons.prems by simp
    next
      case (Inr ev)
      then have "map_of em' i = map_of (AList.update (id_c c) ev em) i"
        using Cons.IH[of "w @ [Retrieval (id_c c) (text_c c)]" "AList.update (id_c c) ev em"]
          Cons.prems False by simp
      then show ?thesis using ne by (simp add: update_conv')
    qed
  qed
qed

lemma verify_loop_calls:
  "\<exists>xs. fst (verify_loop env em cs w vr) = w @ xs
        \<and> (\<forall>i t. Scoring i t \<in> set xs \<longrightarrow> (\<exists>ev. map_of em i = Some ev \<and> ev \<noteq> []))
        \<and> (\<forall>i t. Retrieval i t \<notin> set xs)"
proof (induction cs arbitrary: w vr)
  case Nil
  then show ?case by simp
next
  case (Cons c cs)
  show ?case
  proof (cases "map_of em (id_c c)")
    case None
    then show ?thesis using Cons.IH[of w vr] by simp
  next
    case (Some ev)
    show ?thesis
    proof (cases "ev = []")
      case True
      then show ?thesis using Some Cons.IH[of w vr] by simp
    next
      case False
      show ?thesis
      proof (cases "verify env w (id_c c) (text_c c) ev")
        case (Inl e)
        then show ?thesis using Some False by simp
      next
        case (Inr v)
        obtain xs where "fst (verify_loop env em cs (w @ [Scoring (id_c c) (text_c c)])
                           (AList.update (id_c c) v vr)) = (w @ [Scoring (id_c c) (text_c c)]) @ xs"
          and "\<forall>i t. Scoring i t \<in> set xs \<longrightarrow> (\<exists>ev. map_of em i = Some ev \<and> ev \<noteq> [])"
          and "\<forall>i t. Retrieval i t \<notin> set xs"
          using Cons.IH by blast
        then show ?thesis using Some False Inr
          by (intro exI[of _ "Scoring (id_c c) (text_c c) # xs"]) auto
      qed
    qed
  qed
qed

lemma verify_loop_map:
  "snd (verify_loop env em cs w vr) = Inr vr' \<Longrightarrow> map_of em i = None \<or> map_of em i = Some []
     \<Longrightarrow> map_of vr' i = map_of vr i"
proof (induction cs arbitrary: w vr)
  case Nil
  then show ?case by simp
next
  case (Cons c cs)
  show ?case
  proof (cases "map_of em (id_c c)")
    case None
    then show ?thesis using Cons by simp
  next
    case (Some ev)
    show ?thesis
    proof (cases "ev = []")
      case True
      then show ?thesis using Some Cons by simp
    next
      case False
      then have ne: "id_c c \<noteq> i" using Some Cons.prems(2) by auto
      show ?thesis
      proof (cases "verify env w (id_c c) (text_c c) ev")
        case (Inl e)
        then show ?thesis using Some False Cons.prems by simp
      next
        case (Inr v)
        then have "map_of vr' i = map_of (AList.update (id_c c) v vr) i"
          using Cons.IH[of "w @ [Scoring (id_c c) (text_c c)]" "AList.update (id_c c) v vr"]
            Cons.prems Some False by simp
        then show ?thesis using ne by (simp add: update_conv')
      qed
    qed
  qed
qed


subsection \<open>Claims without evidence\<close>

lemma new_calls_append: "calls after = calls before @ xs \<Longrightarrow> new_calls before after = xs"
  by (simp add: new_calls_def)

lemma default_abstains:
  "action (decide c \<lparr> claim_id_v = i, support_score = 0, contradiction_score = 0,
                      neutral_score = 1, evidence_agreement = 0, source_count = 0,
                      evidence_ids = [] \<rparr> []) = ''ABSTAIN''"
  by (simp add: decide_def rule_based_action_def Let_def)

text \<open>
  C9. For every claim of the state that is not cached and whose entry in the evidence map
  is the empty list: the verification stage makes no scoring call for it, and when that
  stage returns, the claim has no verification result, so the policy stage decides it on
  the default verification result (support 0, contradiction 0, neutral 1, agreement 0,
  no source): its decision, which is among the decisions of the policy stage, has the
  action ABSTAIN.
\<close>

theorem empty_evidence_abstains:
  assumes "c \<in> set (state_get (claims st) [])"
      and "map_of (state_get (cached_claims st) []) (id_c c) = None"
      and "map_of (state_get (evidence_map st) []) (id_c c) = Some []"
      and "snd (verify_claims env self st) = Inr st'"
  shows "(\<forall>t. Scoring (id_c c) t \<notin> set (new_calls self (fst (verify_claims env self st))))
       \<and> map_of (state_get (verification_results st') []) (id_c c) = None
       \<and> decision_for st' c =
           decide c \<lparr> claim_id_v = id_c c, support_score = 0, contradiction_score = 0,
                      neutral_score = 1, evidence_agreement = 0, source_count = 0,
                      evidence_ids = [] \<rparr> []
       \<and> action (decision_for st' c) = ''ABSTAIN''
       \<and> decision_for st' c \<in> set (state_get (decisions (apply_policy st')) [])"
proof -
  let ?loop = "verify_loop (verifier_env env) (state_get (evidence_map st) [])
                 (state_get (claims st) []) (calls self) []"
  obtain xs where xs: "fst ?loop = calls self @ xs"
    and sc: "\<forall>i t. Scoring i t \<in> set xs \<longrightarrow>
               (\<exists>ev. map_of (state_get (evidence_map st) []) i = Some ev \<and> ev \<noteq> [])"
    using verify_loop_calls by blast
  have "new_calls self (fst (verify_claims env self st)) = xs"
    by (rule new_calls_append) (simp add: verify_claims_def Let_def xs)
  then have 1: "\<forall>t. Scoring (id_c c) t \<notin> set (new_calls self (fst (verify_claims env self st)))"
    using sc assms(3) by auto
  obtain vr where vr: "snd ?loop = Inr vr" and st': "st' = st\<lparr>verification_results := Some vr\<rparr>"
    using assms(4) by (auto simp: verify_claims_def Let_def split: sum.splits)
  have 2: "map_of vr (id_c c) = None"
    using verify_loop_map[OF vr, of "id_c c"] assms(3) by simp
  have 3: "decision_for st' c =
           decide c \<lparr> claim_id_v = id_c c, support_score = 0, contradiction_score = 0,
                      neutral_score = 1, evidence_agreement = 0, source_count = 0,
                      evidence_ids = [] \<rparr> []"
    using assms(2,3) 2 by (simp add: decision_for_def st' state_get_def get_def Let_def)
  have 4: "decision_for st' c \<in> set (state_get (decisions (apply_policy st')) [])"
    using assms(1) by (simp add: apply_policy_def state_get_def st')
  show ?thesis
    using 1 2 3 4 default_abstains[of c "id_c c"] by (simp add: st' state_get_def)
qed

theorem empty_evidence_abstains_witness:
  "\<exists>st'. snd (verify_claims offline fresh_pipeline unsupported_state) = Inr st'
      \<and> new_calls fresh_pipeline (fst (verify_claims offline fresh_pipeline unsupported_state)) = []
      \<and> action (decision_for st' paris_claim) = ''ABSTAIN''"
proof -
  have a: "paris_claim \<in> set (state_get (claims unsupported_state) [])"
    by (simp add: unsupported_state_def initial_state_def state_get_def)
  have b: "map_of (state_get (cached_claims unsupported_state) []) (id_c paris_claim) = None"
    by (simp add: unsupported_state_def initial_state_def state_get_def)
  have c: "map_of (state_get (evidence_map unsupported_state) []) (id_c paris_claim) = Some []"
    by (simp add: unsupported_state_def initial_state_def state_get_def paris_claim_def)
  have d: "verify_claims offline fresh_pipeline unsupported_state
             = (fresh_pipeline, Inr (unsupported_state\<lparr>verification_results := Some []\<rparr>))"
    by (simp add: verify_claims_def unsupported_state_def initial_state_def state_get_def
        paris_claim_def fresh_pipeline_def Let_def)
  have e: "snd (verify_claims offline fresh_pipeline unsupported_state)
             = Inr (unsupported_state\<lparr>verification_results := Some []\<rparr>)"
    by (simp add: d)
  from empty_evidence_abstains[OF a b c e]
  have "action (decision_for (unsupported_state\<lparr>verification_results := Some []\<rparr>) paris_claim)
          = ''ABSTAIN''"
    by blast
  then show ?thesis
    by (simp add: d new_calls_def)
qed

subsection \<open>Claims verified a second time\<close>

lemma foldl_store:
  assumes "\<exists>d \<in> set ds. key d = t \<and> \<not> skip d"
      and "\<forall>d \<in> set ds. key d = t \<and> \<not> skip d \<longrightarrow> val d = v"
  shows "foldl (\<lambda>m d. if skip d then m else m(key d \<mapsto> val d)) m0 ds t = Some v"
  using assms
proof (induction ds rule: rev_induct)
  case Nil
  then show ?case by simp
next
  case (snoc d ds)
  show ?case
  proof (cases "key d = t \<and> \<not> skip d")
    case True
    then show ?thesis using snoc.prems(2) by simp
  next
    case False
    then have "\<exists>d \<in> set ds. key d = t \<and> \<not> skip d" using snoc.prems(1) by auto
    then have "foldl (\<lambda>m d. if skip d then m else m(key d \<mapsto> val d)) m0 ds t = Some v"
      using snoc.IH snoc.prems(2) by simp
    then show ?thesis using False by auto
  qed
qed

lemma foldl_hits:
  assumes "\<exists>c \<in> set cs. key c = i \<and> look c = Some e"
      and "\<forall>c \<in> set cs. key c = i \<longrightarrow> look c = Some e"
  shows "map_of (foldl (\<lambda>cached c. case look c of None \<Rightarrow> cached
                                    | Some r \<Rightarrow> AList.update (key c) r cached) d0 cs) i = Some e"
  using assms
proof (induction cs rule: rev_induct)
  case Nil
  then show ?case by simp
next
  case (snoc c cs)
  show ?case
  proof (cases "key c = i")
    case True
    then show ?thesis using snoc.prems(2) by (simp add: update_conv')
  next
    case False
    then have "\<exists>c \<in> set cs. key c = i \<and> look c = Some e" using snoc.prems(1) by auto
    then have "map_of (foldl (\<lambda>cached c. case look c of None \<Rightarrow> cached
                                    | Some r \<Rightarrow> AList.update (key c) r cached) d0 cs) i = Some e"
      using snoc.IH snoc.prems(2) by simp
    then show ?thesis using False by (simp add: update_conv' split: option.splits)
  qed
qed

lemma decision_for_cong:
  "id_c c = id_c c' \<Longrightarrow> text_c c = text_c c' \<Longrightarrow> decision_for st c = decision_for st c'"
  by (simp add: decision_for_def decide_def Let_def split: option.splits)

lemma decision_for_fields:
  "claim_id (decision_for st c) = id_c c" "original_claim (decision_for st c) = text_c c"
  by (simp_all add: decision_for_def decide_def Let_def split: option.splits)

lemma assemble_answer_frame:
  "decisions (assemble_answer st) = decisions st"
  "cached_claims (assemble_answer st) = cached_claims st"
  by (simp_all add: assemble_answer_def Let_def)

lemma apply_policy_frame:
  "decisions (apply_policy st) = Some (map (decision_for st) (state_get (claims st) []))"
  "cached_claims (apply_policy st) = cached_claims st"
  by (simp_all add: apply_policy_def)

lemma store_entry:
  "store_verification m (original_claim d) (action d) (corrected_claim d) (evidence_urls d) (confidence d)
     = m(original_claim d \<mapsto> entry_of d)"
  by (simp add: store_verification_def entry_of_def)

lemma update_memory_fold:
  "memory_store (update_memory self (assemble_answer (apply_policy st)))
     = foldl (\<lambda>m d. if map_of (state_get (cached_claims st) []) (claim_id d) \<noteq> None then m
                      else m(original_claim d \<mapsto> entry_of d))
         (memory_store self) (map (decision_for st) (state_get (claims st) []))"
  unfolding update_memory_def assemble_answer_frame apply_policy_frame store_entry
  by (simp add: state_get_def)


lemma update_memory_stored:
  assumes "c1 \<in> set (state_get (claims st) [])"
      and "map_of (state_get (cached_claims st) []) (id_c c1) = None"
      and "ids_by_text (state_get (claims st) [])"
  shows "memory_store (update_memory self (assemble_answer (apply_policy st))) (text_c c1)
           = Some (entry_of (decision_for st c1))"
proof -
  let ?ds = "map (decision_for st) (state_get (claims st) [])"
  let ?skip = "\<lambda>d. map_of (state_get (cached_claims st) []) (claim_id d) \<noteq> None"
  have "decision_for st c1 \<in> set ?ds" using assms(1) by simp
  moreover have "original_claim (decision_for st c1) = text_c c1 \<and> \<not> ?skip (decision_for st c1)"
    using assms(2) by (simp add: decision_for_fields)
  ultimately have 1: "\<exists>d \<in> set ?ds. original_claim d = text_c c1 \<and> \<not> ?skip d"
    by blast
  have 2: "\<forall>d \<in> set ?ds. original_claim d = text_c c1 \<and> \<not> ?skip d
             \<longrightarrow> entry_of d = entry_of (decision_for st c1)"
  proof (intro ballI impI)
    fix d assume "d \<in> set ?ds" and h: "original_claim d = text_c c1 \<and> \<not> ?skip d"
    then obtain c where c: "c \<in> set (state_get (claims st) [])" and d: "d = decision_for st c"
      by auto
    from h have t: "text_c c = text_c c1" by (simp add: d decision_for_fields)
    then have "id_c c = id_c c1" using assms(1,3) c unfolding ids_by_text_def by blast
    then have "decision_for st c = decision_for st c1" using t by (rule decision_for_cong)
    then show "entry_of d = entry_of (decision_for st c1)" by (simp add: d)
  qed
  show ?thesis
    unfolding update_memory_fold
    by (rule foldl_store[where key = original_claim and skip = "?skip" and val = entry_of, OF 1 2])
qed

lemma check_memory_hit:
  assumes "c2 \<in> set (state_get (claims st) [])"
      and "memory_store self (text_c c2) = Some e"
      and "texts_by_id (state_get (claims st) [])"
  shows "map_of (state_get (cached_claims (check_memory self st)) []) (id_c c2) = Some e"
proof -
  have c: "state_get (cached_claims (check_memory self st)) []
             = foldl (\<lambda>cached c. case memory_store self (text_c c) of None \<Rightarrow> cached
                                    | Some r \<Rightarrow> AList.update (id_c c) r cached)
                 [] (state_get (claims st) [])"
    by (simp add: check_memory_def check_claim_def state_get_def)
  have 1: "\<exists>c \<in> set (state_get (claims st) []). id_c c = id_c c2 \<and> memory_store self (text_c c) = Some e"
    using assms(1,2) by blast
  have 2: "\<forall>c \<in> set (state_get (claims st) []). id_c c = id_c c2 \<longrightarrow> memory_store self (text_c c) = Some e"
  proof (intro ballI impI)
    fix c assume "c \<in> set (state_get (claims st) [])" and "id_c c = id_c c2"
    then have "text_c c = text_c c2" using assms(1,3) unfolding texts_by_id_def by blast
    then show "memory_store self (text_c c) = Some e" using assms(2) by simp
  qed
  show ?thesis
    unfolding c
    by (rule foldl_hits[where key = id_c and look = "\<lambda>c. memory_store self (text_c c)", OF 1 2])
qed

lemma decision_for_cached:
  "map_of (state_get (cached_claims st) []) (id_c c) = Some (entry_of d) \<Longrightarrow> original_claim d = text_c c
     \<Longrightarrow> decision_for st c = d\<lparr>claim_id := id_c c, reasoning := ''From cache''\<rparr>"
  by (simp add: decision_for_def entry_of_def)

lemma second_state_cached:
  "state_get (cached_claims (check_memory after_first_run second_state)) []
     = [(''0f3a9c1d2b4e5f60'',
         \<lparr> action_e = ''ABSTAIN'', corrected_claim_e = None, evidence_urls_e = [],
           confidence_e = 0 \<rparr>)]"
proof -
  have 1: "entry_of (decision_for unsupported_state paris_claim)
             = \<lparr> action_e = ''ABSTAIN'', corrected_claim_e = None, evidence_urls_e = [],
                 confidence_e = 0 \<rparr>"
    by (simp add: decision_for_def unsupported_state_def initial_state_def state_get_def get_def
        paris_claim_def decide_def rule_based_action_def reasoning_of_def Let_def entry_of_def)
  have 2: "memory_store after_first_run ''Paris is the capital of France.''
             = Some \<lparr> action_e = ''ABSTAIN'', corrected_claim_e = None, evidence_urls_e = [],
                      confidence_e = 0 \<rparr>"
    unfolding after_first_run_def update_memory_fold 1[symmetric]
    by (simp add: unsupported_state_def initial_state_def state_get_def paris_claim_def
        decision_for_fields)
  show ?thesis
    by (simp add: check_memory_def check_claim_def second_state_def initial_state_def
        state_get_def paris_claim_def 2)
qed

text \<open>
  C7, as stated, fails: the decision of the first run carries the reasoning of the policy,
  the decision of the second run for the same claim text carries the reasoning "From
  cache", so the two decisions differ.
\<close>

theorem same_decision_counterexample:
  "decision_for unsupported_state paris_claim =
     \<lparr> claim_id = ''0f3a9c1d2b4e5f60'', action = ''ABSTAIN'',
       original_claim = ''Paris is the capital of France.'', corrected_claim = None,
       evidence_urls = [], confidence = 0,
       reasoning = ''Insufficient evidence confidence.'' \<rparr>
   \<and> decision_for (check_memory after_first_run second_state) paris_claim =
     \<lparr> claim_id = ''0f3a9c1d2b4e5f60'', action = ''ABSTAIN'',
       original_claim = ''Paris is the capital of France.'', corrected_claim = None,
       evidence_urls = [], confidence = 0,
       reasoning = ''From cache'' \<rparr>"
proof -
  have 1: "decision_for unsupported_state paris_claim =
     \<lparr> claim_id = ''0f3a9c1d2b4e5f60'', action = ''ABSTAIN'',
       original_claim = ''Paris is the capital of France.'', corrected_claim = None,
       evidence_urls = [], confidence = 0,
       reasoning = ''Insufficient evidence confidence.'' \<rparr>"
    by (simp add: decision_for_def unsupported_state_def initial_state_def state_get_def get_def
        paris_claim_def decide_def rule_based_action_def reasoning_of_def Let_def)
  have 5: "decision_for (check_memory after_first_run second_state) paris_claim =
     \<lparr> claim_id = ''0f3a9c1d2b4e5f60'', action = ''ABSTAIN'',
       original_claim = ''Paris is the capital of France.'', corrected_claim = None,
       evidence_urls = [], confidence = 0,
       reasoning = ''From cache'' \<rparr>"
    unfolding decision_for_def second_state_cached by (simp add: paris_claim_def)
  from 1 5 show ?thesis by (rule conjI)
qed

text \<open>
  C7, amended. Let a first run decide a claim that is not cached and store its decisions,
  its claims having equal ids for equal texts (as every list the extractor returns). Let
  a later run on that pipeline have a claim with the same text, no two texts of its claim
  list sharing an id, and let its retrieval and verification stages return. Then these
  stages make no retrieval call and no scoring call for the claim, and the decision for
  the claim, straight after the cache lookup and after the two stages alike, is the
  decision of the first run with the claim's id and the reasoning "From cache": the same
  action, original claim, corrected claim, evidence URLs and confidence.
\<close>

theorem cached_claim_second_run:
  assumes "c1 \<in> set (state_get (claims st1) [])"
      and "map_of (state_get (cached_claims st1) []) (id_c c1) = None"
      and "ids_by_text (state_get (claims st1) [])"
      and "self2 = update_memory self1 (assemble_answer (apply_policy st1))"
      and "c2 \<in> set (state_get (claims st2) [])"
      and "text_c c2 = text_c c1"
      and "texts_by_id (state_get (claims st2) [])"
      and "retrieve_evidence env self2 (check_memory self2 st2) = (self3, Inr st3)"
      and "verify_claims env self3 st3 = (self4, Inr st4)"
  shows "decision_for (check_memory self2 st2) c2
           = (decision_for st1 c1)\<lparr>claim_id := id_c c2, reasoning := ''From cache''\<rparr>
       \<and> decision_for st4 c2
           = (decision_for st1 c1)\<lparr>claim_id := id_c c2, reasoning := ''From cache''\<rparr>
       \<and> (\<forall>t. Retrieval (id_c c2) t \<notin> set (new_calls self2 self4))
       \<and> (\<forall>t. Scoring (id_c c2) t \<notin> set (new_calls self2 self4))"
proof -
  let ?st2 = "check_memory self2 st2"
  let ?e = "entry_of (decision_for st1 c1)"
  have claims2: "claims ?st2 = claims st2" by (simp add: check_memory_def)
  have "memory_store self2 (text_c c2) = Some ?e"
    unfolding assms(4,6) by (rule update_memory_stored[OF assms(1,2,3)])
  then have hit: "map_of (state_get (cached_claims ?st2) []) (id_c c2) = Some ?e"
    by (rule check_memory_hit[OF assms(5) _ assms(7)])
  have orig: "original_claim (decision_for st1 c1) = text_c c2"
    by (simp add: decision_for_fields assms(6))
  have d2: "decision_for ?st2 c2
              = (decision_for st1 c1)\<lparr>claim_id := id_c c2, reasoning := ''From cache''\<rparr>"
    using hit orig by (rule decision_for_cached)
  let ?rl = "retrieve_loop (retriever_env env) (state_get (cached_claims ?st2) [])
               (state_get (claims ?st2) []) (calls self2) []"
  obtain xs where xs: "fst ?rl = calls self2 @ xs"
    and rx: "\<forall>i t. Retrieval i t \<in> set xs \<longrightarrow> map_of (state_get (cached_claims ?st2) []) i = None"
    and sx: "\<forall>i t. Scoring i t \<notin> set xs"
    using retrieve_loop_calls by blast
  obtain em where em: "snd ?rl = Inr em" and st3: "st3 = ?st2\<lparr>evidence_map := Some em\<rparr>"
    and self3: "self3 = self2\<lparr>calls := fst ?rl\<rparr>"
    using assms(8) by (auto simp: retrieve_evidence_def Let_def split: sum.splits)
  have "map_of em (id_c c2) = map_of [] (id_c c2)"
    using hit by (intro retrieve_loop_map[OF em]) simp
  then have none: "map_of (state_get (evidence_map st3) []) (id_c c2) = None"
    by (simp add: st3 state_get_def)
  let ?vl = "verify_loop (verifier_env env) (state_get (evidence_map st3) [])
               (state_get (claims st3) []) (calls self3) []"
  obtain ys where ys: "fst ?vl = calls self3 @ ys"
    and sy: "\<forall>i t. Scoring i t \<in> set ys \<longrightarrow>
               (\<exists>ev. map_of (state_get (evidence_map st3) []) i = Some ev \<and> ev \<noteq> [])"
    and ry: "\<forall>i t. Retrieval i t \<notin> set ys"
    using verify_loop_calls by blast
  obtain vr where st4: "st4 = st3\<lparr>verification_results := Some vr\<rparr>"
    and self4: "self4 = self3\<lparr>calls := fst ?vl\<rparr>"
    using assms(9) by (auto simp: verify_claims_def Let_def split: sum.splits)
  have "calls self3 = calls self2 @ xs"
    by (simp add: self3 xs)
  moreover have "calls self4 = calls self3 @ ys"
    unfolding self4 using ys by simp
  ultimately have "calls self4 = calls self2 @ (xs @ ys)"
    by simp
  then have nc: "new_calls self2 self4 = xs @ ys"
    by (rule new_calls_append)
  have c4: "cached_claims st4 = cached_claims ?st2"
    by (simp add: st4 st3)
  have d4: "decision_for st4 c2
              = (decision_for st1 c1)\<lparr>claim_id := id_c c2, reasoning := ''From cache''\<rparr>"
    using hit orig unfolding c4[symmetric] by (rule decision_for_cached)
  have r: "\<forall>t. Retrieval (id_c c2) t \<notin> set (new_calls self2 self4)"
    using rx ry hit unfolding nc by auto
  have s: "\<forall>t. Scoring (id_c c2) t \<notin> set (new_calls self2 self4)"
    using sx sy none unfolding nc by auto
  from d2 d4 r s show ?thesis by blast
qed

theorem cached_claim_second_run_witness:
  "\<exists>self4 st4.
      verify_claims offline after_first_run
        ((check_memory after_first_run second_state)\<lparr>evidence_map := Some []\<rparr>) = (self4, Inr st4)
      \<and> new_calls after_first_run self4 = []
      \<and> decision_for st4 paris_claim =
          \<lparr> claim_id = ''0f3a9c1d2b4e5f60'', action = ''ABSTAIN'',
            original_claim = ''Paris is the capital of France.'', corrected_claim = None,
            evidence_urls = [], confidence = 0,
            reasoning = ''From cache'' \<rparr>"
proof -
  let ?st2 = "check_memory after_first_run second_state"
  let ?st3 = "?st2\<lparr>evidence_map := Some []\<rparr>"
  let ?st4 = "?st3\<lparr>verification_results := Some []\<rparr>"
  have cl: "state_get (claims ?st2) [] = [paris_claim]"
    by (simp add: check_memory_def second_state_def initial_state_def state_get_def)
  have a1: "paris_claim \<in> set (state_get (claims unsupported_state) [])"
    by (simp add: unsupported_state_def initial_state_def state_get_def)
  have a2: "map_of (state_get (cached_claims unsupported_state) []) (id_c paris_claim) = None"
    by (simp add: unsupported_state_def initial_state_def state_get_def)
  have a3: "ids_by_text (state_get (claims unsupported_state) [])"
    by (simp add: ids_by_text_def unsupported_state_def initial_state_def state_get_def)
  have a5: "paris_claim \<in> set (state_get (claims second_state) [])"
    by (simp add: second_state_def initial_state_def state_get_def)
  have a7: "texts_by_id (state_get (claims second_state) [])"
    by (simp add: texts_by_id_def second_state_def initial_state_def state_get_def)
  have a8: "retrieve_evidence offline after_first_run ?st2
              = (after_first_run\<lparr>calls := calls after_first_run\<rparr>, Inr ?st3)"
    by (simp add: retrieve_evidence_def Let_def cl second_state_cached paris_claim_def)
  have a9: "verify_claims offline (after_first_run\<lparr>calls := calls after_first_run\<rparr>) ?st3
              = (after_first_run\<lparr>calls := calls after_first_run\<rparr>, Inr ?st4)"
    using cl by (simp add: verify_claims_def Let_def state_get_def paris_claim_def)
  have id: "after_first_run\<lparr>calls := calls after_first_run\<rparr> = after_first_run"
    by simp
  have d: "decision_for unsupported_state paris_claim =
     \<lparr> claim_id = ''0f3a9c1d2b4e5f60'', action = ''ABSTAIN'',
       original_claim = ''Paris is the capital of France.'', corrected_claim = None,
       evidence_urls = [], confidence = 0,
       reasoning = ''Insufficient evidence confidence.'' \<rparr>"
    by (simp add: decision_for_def unsupported_state_def initial_state_def state_get_def get_def
        paris_claim_def decide_def rule_based_action_def reasoning_of_def Let_def)
  from cached_claim_second_run[OF a1 a2 a3 after_first_run_def a5 refl a7 a8 a9]
  have "decision_for ?st4 paris_claim
          = (decision_for unsupported_state paris_claim)
              \<lparr>claim_id := id_c paris_claim, reasoning := ''From cache''\<rparr>"
    by blast
  then have "decision_for ?st4 paris_claim =
          \<lparr> claim_id = ''0f3a9c1d2b4e5f60'', action = ''ABSTAIN'',
            original_claim = ''Paris is the capital of France.'', corrected_claim = None,
            evidence_urls = [], confidence = 0,
            reasoning = ''From cache'' \<rparr>"
    unfolding d by (simp add: paris_claim_def)
  moreover have "new_calls after_first_run after_first_run = []"
    by (simp add: new_calls_def)
  ultimately show ?thesis
    using a9 unfolding id by blast
qed

subsection \<open>Escalation fires at most once\<close>

lemma done_within_mono:
  "done_within env n nd self st m \<Longrightarrow> n \<le> n' \<Longrightarrow> m \<le> m' \<Longrightarrow> done_within env n' nd self st m'"
  unfolding done_within_def by (meson le_trans)

lemma done_END: "done_within env (Suc 0) END self st 0"
  unfolding done_within_def
proof (intro allI impI)
  fix fuel :: nat assume "Suc 0 \<le> fuel"
  then obtain k where "fuel = Suc k" by (cases fuel) auto
  then show "\<exists>visited self' res. run_graph env fuel END self st = (visited, self', Some res)
               \<and> count_list visited Call_llm \<le> 0"
    by simp
qed

lemma done_raise:
  assumes "nd \<noteq> END" and "run_node env nd self st = (self', Inl e)"
  shows "done_within env 1 nd self st (if nd = Call_llm then 1 else 0)"
  unfolding done_within_def
proof (intro allI impI)
  fix fuel :: nat assume "1 \<le> fuel"
  then obtain k where "fuel = Suc k" by (cases fuel) auto
  then show "\<exists>visited self'' res. run_graph env fuel nd self st = (visited, self'', Some res)
               \<and> count_list visited Call_llm \<le> (if nd = Call_llm then 1 else 0)"
    using assms by simp
qed

lemma done_step:
  assumes "nd \<noteq> END" and "run_node env nd self st = (self', Inr st')"
      and "done_within env n (next_node nd st') self' st' m"
  shows "done_within env (Suc n) nd self st (m + (if nd = Call_llm then 1 else 0))"
  unfolding done_within_def
proof (intro allI impI)
  fix fuel :: nat assume "Suc n \<le> fuel"
  then obtain k where k: "fuel = Suc k" and "n \<le> k" by (cases fuel) auto
  then obtain visited self'' res where
    r: "run_graph env k (next_node nd st') self' st' = (visited, self'', Some res)"
    and c: "count_list visited Call_llm \<le> m"
    using assms(3) unfolding done_within_def by blast
  show "\<exists>visited self'' res. run_graph env fuel nd self st = (visited, self'', Some res)
          \<and> count_list visited Call_llm \<le> m + (if nd = Call_llm then 1 else 0)"
    using assms(1,2) r c by (simp add: k)
qed


lemma run_node_simps:
  "run_node env Call_llm self st = call_llm env self st"
  "run_node env Extract_claims self st = (self, Inr (extract_claims env st))"
  "run_node env Check_memory self st = (self, Inr (check_memory self st))"
  "run_node env Retrieve_evidence self st = retrieve_evidence env self st"
  "run_node env Verify_claims self st = verify_claims env self st"
  "run_node env Check_escalation self st = check_escalation (floats env) self st"
  "run_node env Apply_policy self st = (self, Inr (apply_policy st))"
  "run_node env Assemble_answer self st = (self, Inr (assemble_answer st))"
  "run_node env Update_memory self st = (update_memory self st, Inr st)"
  by (simp_all add: run_node_def)

lemma next_node_simps:
  "next_node Call_llm st = Extract_claims"
  "next_node Extract_claims st = Check_memory"
  "next_node Retrieve_evidence st = Verify_claims"
  "next_node Verify_claims st = Check_escalation"
  "next_node Apply_policy st = Assemble_answer"
  "next_node Assemble_answer st = Update_memory"
  "next_node Update_memory st = END"
  by (simp_all add: next_node_def)

lemma done_next:
  assumes "run_node env nd self st = (self', Inr st')"
      and "done_within env n (next_node nd st') self' st' m"
      and "nd \<noteq> END" and "Suc n \<le> n'" and "m + (if nd = Call_llm then 1 else 0) \<le> m'"
  shows "done_within env n' nd self st m'"
  using done_within_mono[OF done_step[OF assms(3,1,2)] assms(4,5)] .

lemma done_fail:
  assumes "run_node env nd self st = (self', Inl e)"
      and "nd \<noteq> END" and "1 \<le> n'" and "(if nd = Call_llm then 1 else 0) \<le> m'"
  shows "done_within env n' nd self st m'"
  using done_within_mono[OF done_raise[OF assms(2,1)] assms(3,4)] .

lemma done_tail: "done_within env 4 Apply_policy self st 0"
proof -
  have 1: "done_within env 2 Update_memory self (assemble_answer (apply_policy st)) 0"
    by (rule done_next[OF run_node_simps(9), where n = "Suc 0" and m = 0])
       (simp_all add: next_node_simps done_END)
  have 2: "done_within env 3 Assemble_answer self (apply_policy st) 0"
    by (rule done_next[OF run_node_simps(8), where n = 2 and m = 0])
       (simp_all add: next_node_simps 1)
  show ?thesis
    by (rule done_next[OF run_node_simps(7), where n = 3 and m = 0])
       (simp_all add: next_node_simps 2)
qed


lemma tier_frame:
  "at_llm_tier (extract_claims env st) = at_llm_tier st"
  "at_llm_tier (check_memory self st) = at_llm_tier st"
  by (simp_all add: at_llm_tier_def extract_claims_def check_memory_def)

lemma retrieve_evidence_tier:
  "retrieve_evidence env self st = (self', Inr st') \<Longrightarrow> at_llm_tier st' = at_llm_tier st"
  by (auto simp: retrieve_evidence_def Let_def at_llm_tier_def split: sum.splits)

lemma verify_claims_tier:
  "verify_claims env self st = (self', Inr st') \<Longrightarrow> at_llm_tier st' = at_llm_tier st"
  by (auto simp: verify_claims_def Let_def at_llm_tier_def split: sum.splits)

lemma check_escalation_llm:
  "at_llm_tier st \<Longrightarrow>
     check_escalation arith self st =
       (self\<lparr>model_router := Some (case model_router self of None \<Rightarrow> new_router | Some r \<Rightarrow> r)\<rparr>,
        Inr (st\<lparr>should_escalate_s := Some False,
                 escalation_reason := Some Already_using_LLM_tier\<rparr>))"
  by (simp add: check_escalation_def at_llm_tier_def Let_def)

lemma check_escalation_route:
  "check_escalation arith self st = (self', Inr st') \<Longrightarrow> route_by_escalation st' = ''escalate_to_llm''
     \<Longrightarrow> force_llm_tier st' = Some True"
  by (auto simp: check_escalation_def Let_def route_by_escalation_def state_get_def
      split: if_splits sum.splits)

lemma call_llm_forced:
  "force_llm_tier st = Some True \<Longrightarrow> call_llm env self st = (self', Inr st') \<Longrightarrow> at_llm_tier st'"
  by (auto simp: call_llm_def Let_def state_get_def get_response_def call_llm_router_def
      call_gemini_def call_claude_def at_llm_tier_def metadata_of_def dict_of_def get_def
      split: if_splits option.splits sum.splits prod.splits)


lemma proceed_after_llm:
  "next_node Check_escalation (st\<lparr>should_escalate_s := Some False, escalation_reason := r\<rparr>)
     = Apply_policy"
  by (simp add: next_node_def route_by_escalation_def state_get_def)

lemma done_check_escalation_llm:
  assumes "at_llm_tier st"
  shows "done_within env 5 Check_escalation self st 0"
  by (rule done_next[where n = 4 and m = 0,
        OF trans[OF run_node_simps(6) check_escalation_llm[OF assms]]])
     (simp_all add: proceed_after_llm done_tail)

lemma done_verify_claims_llm:
  assumes "at_llm_tier st"
  shows "done_within env 6 Verify_claims self st 0"
proof (cases "verify_claims env self st")
  case (Pair self' r)
  show ?thesis
  proof (cases r)
    case (Inl e)
    show ?thesis
      by (rule done_fail[OF trans[OF run_node_simps(5) Pair[unfolded Inl]]]) simp_all
  next
    case (Inr st')
    have "at_llm_tier st'" using verify_claims_tier[OF Pair[unfolded Inr]] assms by simp
    then have "done_within env 5 Check_escalation self' st' 0"
      by (rule done_check_escalation_llm)
    then show ?thesis
      by (intro done_next[where n = 5 and m = 0, OF trans[OF run_node_simps(5) Pair[unfolded Inr]]])
         (simp_all add: next_node_simps)
  qed
qed

lemma done_retrieve_evidence_llm:
  assumes "at_llm_tier st"
  shows "done_within env 7 Retrieve_evidence self st 0"
proof (cases "retrieve_evidence env self st")
  case (Pair self' r)
  show ?thesis
  proof (cases r)
    case (Inl e)
    show ?thesis
      by (rule done_fail[OF trans[OF run_node_simps(4) Pair[unfolded Inl]]]) simp_all
  next
    case (Inr st')
    have "at_llm_tier st'" using retrieve_evidence_tier[OF Pair[unfolded Inr]] assms by simp
    then have "done_within env 6 Verify_claims self' st' 0"
      by (rule done_verify_claims_llm)
    then show ?thesis
      by (intro done_next[where n = 6 and m = 0, OF trans[OF run_node_simps(4) Pair[unfolded Inr]]])
         (simp_all add: next_node_simps)
  qed
qed

lemma next_after_check_memory:
  "next_node Check_memory st = Retrieve_evidence \<or> next_node Check_memory st = Check_escalation"
  by (simp add: next_node_def)

lemma done_check_memory_llm:
  assumes "at_llm_tier st"
  shows "done_within env 8 Check_memory self st 0"
proof -
  have t: "at_llm_tier (check_memory self st)" using assms by (simp add: tier_frame)
  have "done_within env 7 (next_node Check_memory (check_memory self st)) self (check_memory self st) 0"
    using next_after_check_memory[of "check_memory self st"]
      done_retrieve_evidence_llm[OF t, of env self]
      done_within_mono[OF done_check_escalation_llm[OF t, of env self], of 7 0]
    by auto
  then show ?thesis
    by (intro done_next[where n = 7 and m = 0, OF run_node_simps(3)]) simp_all
qed

lemma done_extract_claims_llm:
  assumes "at_llm_tier st"
  shows "done_within env 9 Extract_claims self st 0"
proof -
  have "at_llm_tier (extract_claims env st)" using assms by (simp add: tier_frame)
  then have "done_within env 8 Check_memory self (extract_claims env st) 0"
    by (rule done_check_memory_llm)
  then show ?thesis
    by (intro done_next[where n = 8 and m = 0, OF run_node_simps(2)]) (simp_all add: next_node_simps)
qed

lemma done_call_llm_forced:
  assumes "force_llm_tier st = Some True"
  shows "done_within env 10 Call_llm self st (Suc 0)"
proof (cases "call_llm env self st")
  case (Pair self' r)
  show ?thesis
  proof (cases r)
    case (Inl e)
    show ?thesis
      by (rule done_fail[OF trans[OF run_node_simps(1) Pair[unfolded Inl]]]) simp_all
  next
    case (Inr st')
    have "at_llm_tier st'" using call_llm_forced[OF assms Pair[unfolded Inr]] .
    then have "done_within env 9 Extract_claims self' st' 0"
      by (rule done_extract_claims_llm)
    then show ?thesis
      by (intro done_next[where n = 9 and m = 0, OF trans[OF run_node_simps(1) Pair[unfolded Inr]]])
         (simp_all add: next_node_simps)
  qed
qed


lemma next_after_check_escalation:
  "next_node Check_escalation st = (if route_by_escalation st = ''escalate_to_llm'' then Call_llm else Apply_policy)"
  by (simp add: next_node_def)

lemma done_check_escalation:
  "done_within env 11 Check_escalation self st (Suc 0)"
proof (cases "check_escalation (floats env) self st")
  case (Pair self' r)
  show ?thesis
  proof (cases r)
    case (Inl e)
    show ?thesis
      by (rule done_fail[OF trans[OF run_node_simps(6) Pair[unfolded Inl]]]) simp_all
  next
    case (Inr st')
    have "done_within env 10 (next_node Check_escalation st') self' st' (Suc 0)"
    proof (cases "route_by_escalation st' = ''escalate_to_llm''")
      case True
      then have "force_llm_tier st' = Some True"
        using check_escalation_route[OF Pair[unfolded Inr]] by simp
      then show ?thesis
        using True done_call_llm_forced by (simp add: next_after_check_escalation)
    next
      case False
      then show ?thesis
        using done_within_mono[OF done_tail, where n' = 10 and m' = "Suc 0"] by (simp add: next_after_check_escalation)
    qed
    then show ?thesis
      by (intro done_next[where n = 10 and m = "Suc 0", OF trans[OF run_node_simps(6) Pair[unfolded Inr]]])
         simp_all
  qed
qed

lemma done_verify_claims: "done_within env 12 Verify_claims self st (Suc 0)"
proof (cases "verify_claims env self st")
  case (Pair self' r)
  show ?thesis
  proof (cases r)
    case (Inl e)
    show ?thesis
      by (rule done_fail[OF trans[OF run_node_simps(5) Pair[unfolded Inl]]]) simp_all
  next
    case (Inr st')
    show ?thesis
      by (rule done_next[where n = 11 and m = "Suc 0", OF trans[OF run_node_simps(5) Pair[unfolded Inr]]])
         (simp_all add: next_node_simps done_check_escalation)
  qed
qed

lemma done_retrieve_evidence: "done_within env 13 Retrieve_evidence self st (Suc 0)"
proof (cases "retrieve_evidence env self st")
  case (Pair self' r)
  show ?thesis
  proof (cases r)
    case (Inl e)
    show ?thesis
      by (rule done_fail[OF trans[OF run_node_simps(4) Pair[unfolded Inl]]]) simp_all
  next
    case (Inr st')
    show ?thesis
      by (rule done_next[where n = 12 and m = "Suc 0", OF trans[OF run_node_simps(4) Pair[unfolded Inr]]])
         (simp_all add: next_node_simps done_verify_claims)
  qed
qed

lemma done_check_memory: "done_within env 14 Check_memory self st (Suc 0)"
proof -
  have "done_within env 13 (next_node Check_memory (check_memory self st)) self (check_memory self st) (Suc 0)"
    using next_after_check_memory[of "check_memory self st"]
      done_retrieve_evidence[of env self "check_memory self st"]
      done_within_mono[OF done_check_escalation[of env self "check_memory self st"], where n' = 13 and m' = "Suc 0"]
    by auto
  then show ?thesis
    by (intro done_next[where n = 13 and m = "Suc 0", OF run_node_simps(3)]) simp_all
qed

lemma done_extract_claims: "done_within env 15 Extract_claims self st (Suc 0)"
  by (rule done_next[where n = 14 and m = "Suc 0", OF run_node_simps(2)])
     (simp_all add: next_node_simps done_check_memory)

lemma done_call_llm: "done_within env 16 Call_llm self st 2"
proof (cases "call_llm env self st")
  case (Pair self' r)
  show ?thesis
  proof (cases r)
    case (Inl e)
    show ?thesis
      by (rule done_fail[OF trans[OF run_node_simps(1) Pair[unfolded Inl]]]) simp_all
  next
    case (Inr st')
    show ?thesis
      by (rule done_next[where n = 15 and m = "Suc 0", OF trans[OF run_node_simps(1) Pair[unfolded Inr]]])
         (simp_all add: next_node_simps done_extract_claims)
  qed
qed

text \<open>
  C2. Once the metadata records the \<open>llm\<close> tier, the escalation check returns with
  \<^verbatim>\<open>should_escalate\<close> false and the route "proceed", whatever the raw text, the
  verification results and the rest of the state are. And every run of the workflow graph
  from the initial state of a request, in every environment, ends within 16 steps, in a
  final state or an exception, and executes the generation node at most twice: the edge
  from the escalation check back to generation is taken at most once.
\<close>

theorem escalation_at_most_once:
  assumes "get (state_get (llm_metadata st) []) ''tier'' (VStr ''slm'') = VStr ''llm''"
      and "16 \<le> fuel"
  shows "(\<exists>self' st'. check_escalation arith self st = (self', Inr st')
            \<and> should_escalate_s st' = Some False
            \<and> route_by_escalation st' = ''proceed'')
       \<and> (\<exists>visited self' res.
            run_graph env fuel Call_llm self0 (initial_state q uid) = (visited, self', Some res)
            \<and> count_list visited Call_llm \<le> 2)"
proof -
  have "at_llm_tier st" using assms(1) by (simp add: at_llm_tier_def)
  from check_escalation_llm[OF this, of arith self]
  have 1: "\<exists>self' st'. check_escalation arith self st = (self', Inr st')
            \<and> should_escalate_s st' = Some False
            \<and> route_by_escalation st' = ''proceed''"
    by (simp add: route_by_escalation_def state_get_def)
  have 2: "\<exists>visited self' res.
            run_graph env fuel Call_llm self0 (initial_state q uid) = (visited, self', Some res)
            \<and> count_list visited Call_llm \<le> 2"
    using done_call_llm[of env self0 "initial_state q uid"] assms(2)
    unfolding done_within_def by blast
  from 1 2 show ?thesis by (rule conjI)
qed

theorem escalation_at_most_once_witness:
  "get (state_get (llm_metadata premium_state) []) ''tier'' (VStr ''slm'') = VStr ''llm''
   \<and> (\<exists>self' st'. check_escalation double_arith fresh_pipeline premium_state = (self', Inr st')
          \<and> should_escalate_s st' = Some False
          \<and> route_by_escalation st' = ''proceed'')
   \<and> (\<exists>visited self' res.
          run_graph offline 16 Call_llm fresh_pipeline (initial_state ''Is it so?'' None)
            = (visited, self', Some res)
          \<and> count_list visited Call_llm \<le> 2)"
proof -
  have t: "get (state_get (llm_metadata premium_state) []) ''tier'' (VStr ''slm'') = VStr ''llm''"
    by (simp add: premium_state_def initial_state_def state_get_def get_def)
  from escalation_at_most_once[OF t, of 16 double_arith fresh_pipeline offline fresh_pipeline
         "''Is it so?''" None] t
  show ?thesis by simp
qed

end
